theory Spec2Isabelle
  imports
    Main
    "HOL-Library.Char_ord"
    "HOL-Library.List_Lexorder"
    "HOL-Library.Product_Lexorder"
    "HOL-Library.Multiset"
    "HOL-Library.Sublist"
begin

section \<open>Student tracking: roster import and live scanner\<close>

text \<open>
  A shallow embedding of \<^verbatim>\<open>student_input.py\<close> (name normalisation, roster building,
  roster storage) and of \<^verbatim>\<open>live_scanner_static.py\<close> (the scan loop with its two sinks).

  Strings are \<^typ>\<open>string\<close>, a character being a code point below 256: the strings of
  Python's \<^verbatim>\<open>str\<close> whose code points are all below U+0100. On them the character
  classes and the lower case below are those of Python. The upper case of a character is
  that of Python except for the three characters (U+00B5, U+00DF, U+00FF) whose upper
  case is not one character below U+0100; \<^verbatim>\<open>single_upper\<close> excludes them.
  Python's comparison of strings is the lexicographic order of the code points, which is
  the order of \<^verbatim>\<open>HOL-Library.List_Lexorder\<close> over \<^verbatim>\<open>HOL-Library.Char_ord\<close>.
\<close>

subsection \<open>Exceptions\<close>

datatype exn =
    ValueError string
  | IndexError
  | SystemExit nat
  | IntegrityError
  | OperationalError
  | OverflowError
  | OSError
  | KeyboardInterrupt

subsection \<open>Characters and the string methods used by the source\<close>

definition is_space :: "char \<Rightarrow> bool" where
  \<comment> \<open>\<^verbatim>\<open>str.isspace\<close> on one character; the class of \<^verbatim>\<open>\s\<close>, \<^verbatim>\<open>strip()\<close>, \<^verbatim>\<open>split()\<close>:
      U+0009 to U+000D, U+001C to U+0020, U+0085, U+00A0\<close>
  "is_space c =
     (let n = (of_char c :: nat)
      in (9 \<le> n \<and> n \<le> 13) \<or> (28 \<le> n \<and> n \<le> 32) \<or> n = 133 \<or> n = 160)"

definition is_digit :: "char \<Rightarrow> bool" where
  \<comment> \<open>the class of \<^verbatim>\<open>\d\<close>\<close>
  "is_digit c = (let n = (of_char c :: nat) in 48 \<le> n \<and> n \<le> 57)"

definition is_AZ :: "char \<Rightarrow> bool" where
  \<comment> \<open>the class \<^verbatim>\<open>[A-Z]\<close>\<close>
  "is_AZ c = (let n = (of_char c :: nat) in 65 \<le> n \<and> n \<le> 90)"

definition is_upper :: "char \<Rightarrow> bool" where
  \<comment> \<open>an uppercase character for \<^verbatim>\<open>str.isupper\<close>: A to Z, U+00C0 to U+00D6, U+00D8 to U+00DE\<close>
  "is_upper c =
     (let n = (of_char c :: nat)
      in (65 \<le> n \<and> n \<le> 90) \<or> (192 \<le> n \<and> n \<le> 214) \<or> (216 \<le> n \<and> n \<le> 222))"

definition is_lower :: "char \<Rightarrow> bool" where
  \<comment> \<open>a lowercase character for \<^verbatim>\<open>str.isupper\<close>: a to z, U+00AA, U+00B5, U+00BA,
      U+00DF to U+00F6, U+00F8 to U+00FF\<close>
  "is_lower c =
     (let n = (of_char c :: nat)
      in (97 \<le> n \<and> n \<le> 122) \<or> n = 170 \<or> n = 181 \<or> n = 186
         \<or> (223 \<le> n \<and> n \<le> 246) \<or> (248 \<le> n \<and> n \<le> 255))"

definition single_upper :: "char \<Rightarrow> bool" where
  \<comment> \<open>the upper case of the character is one character below U+0100: all but U+00B5
      (upper case U+039C), U+00DF (two letters) and U+00FF (upper case U+0178)\<close>
  "single_upper c = (let n = (of_char c :: nat) in n \<noteq> 181 \<and> n \<noteq> 223 \<and> n \<noteq> 255)"

definition to_upper :: "char \<Rightarrow> char" where
  \<comment> \<open>the upper case of a character that has \<^const>\<open>single_upper\<close>\<close>
  "to_upper c =
     (let n = (of_char c :: nat)
      in if (97 \<le> n \<and> n \<le> 122) \<or> (224 \<le> n \<and> n \<le> 246) \<or> (248 \<le> n \<and> n \<le> 254)
         then char_of (n - 32) else c)"

definition to_lower :: "char \<Rightarrow> char" where
  "to_lower c = (if is_upper c then char_of (of_char c + (32::nat)) else c)"

definition strip :: "string \<Rightarrow> string" where
  \<comment> \<open>\<^verbatim>\<open>s.strip()\<close>\<close>
  "strip s = rev (dropWhile is_space (rev (dropWhile is_space s)))"

definition isupper :: "string \<Rightarrow> bool" where
  \<comment> \<open>\<^verbatim>\<open>w.isupper()\<close>: at least one cased character and no lowercase one\<close>
  "isupper w = (list_ex is_upper w \<and> \<not> list_ex is_lower w)"

definition capitalize :: "string \<Rightarrow> string" where
  \<comment> \<open>\<^verbatim>\<open>w.capitalize()\<close>: first character upper, the others lower; that of Python when
      the first character has \<^const>\<open>single_upper\<close>\<close>
  "capitalize w = (case w of [] \<Rightarrow> [] | c # cs \<Rightarrow> to_upper c # map to_lower cs)"

fun join :: "string \<Rightarrow> string list \<Rightarrow> string" where
  \<comment> \<open>\<^verbatim>\<open>sep.join(xs)\<close>\<close>
  "join sep [] = []"
| "join sep [x] = x"
| "join sep (x # y # ys) = x @ sep @ join sep (y # ys)"

function sub_ws :: "string \<Rightarrow> string" where
  \<comment> \<open>\<^verbatim>\<open>re.sub(r"\s+", " ", s)\<close>: every maximal run of blanks becomes one space\<close>
  "sub_ws [] = []"
| "sub_ws (c # cs) =
     (if is_space c then CHR '' '' # sub_ws (dropWhile is_space cs) else c # sub_ws cs)"
  by pat_completeness auto
termination
  by (relation "measure length") (auto simp: le_imp_less_Suc length_dropWhile_le)

function re_split_ws :: "string \<Rightarrow> string list" where
  \<comment> \<open>\<^verbatim>\<open>re.split(r"(\s+)", s)\<close>: the pieces between the runs of blanks, and, because of the
      capturing group, the runs themselves\<close>
  "re_split_ws s =
     (case dropWhile (\<lambda>c. \<not> is_space c) s of
        [] \<Rightarrow> [s]
      | c # r \<Rightarrow> takeWhile (\<lambda>c. \<not> is_space c) s # (c # takeWhile is_space r)
                 # re_split_ws (dropWhile is_space r))"
  by pat_completeness auto
termination
proof (relation "measure length")
  fix s :: string and c r
  assume h: "dropWhile (\<lambda>c. \<not> is_space c) s = c # r"
  have "length (dropWhile is_space r) \<le> length r"
    by (rule length_dropWhile_le)
  moreover have "length (c # r) \<le> length s"
    using length_dropWhile_le [of "\<lambda>c. \<not> is_space c" s] h by simp
  ultimately show "(dropWhile is_space r, s) \<in> measure length"
    by simp
qed simp

function split_ws :: "string \<Rightarrow> string list" where
  \<comment> \<open>\<^verbatim>\<open>s.split()\<close>: the non-empty pieces between runs of blanks\<close>
  "split_ws s =
     (case dropWhile is_space s of
        [] \<Rightarrow> []
      | c # r \<Rightarrow> (c # takeWhile (\<lambda>c. \<not> is_space c) r)
                 # split_ws (dropWhile (\<lambda>c. \<not> is_space c) r))"
  by pat_completeness auto
termination
proof (relation "measure length")
  fix s :: string and c r
  assume h: "dropWhile is_space s = c # r"
  have "length (dropWhile (\<lambda>c. \<not> is_space c) r) \<le> length r"
    by (rule length_dropWhile_le)
  moreover have "length (c # r) \<le> length s"
    using length_dropWhile_le [of is_space s] h by simp
  ultimately show "(dropWhile (\<lambda>c. \<not> is_space c) r, s) \<in> measure length"
    by simp
qed simp

declare re_split_ws.simps [simp del] split_ws.simps [simp del]

definition at_dollar :: "string \<Rightarrow> bool" where
  \<comment> \<open>\<^verbatim>\<open>$\<close>: at the end of the string, or before a newline that ends it\<close>
  "at_dollar r = (r = [] \<or> r = [CHR 0x0A])"

fun re_match_initial :: "string \<Rightarrow> bool" where
  \<comment> \<open>\<^verbatim>\<open>re.match(r"^[A-Z]\.?$", s)\<close>\<close>
  "re_match_initial [] = False"
| "re_match_initial (c # r) =
     (is_AZ c \<and>
      (case r of [] \<Rightarrow> True
       | d # r' \<Rightarrow> if d = CHR ''.'' then at_dollar r' else at_dollar r))"

subsection \<open>Name normalisation (\<^verbatim>\<open>student_input.py\<close>)\<close>

definition norm_str :: "string \<Rightarrow> string" where
  \<comment> \<open>\<^verbatim>\<open>_norm\<close>\<close>
  "norm_str s = sub_ws (strip s)"

definition to_title :: "string \<Rightarrow> string" where
  "to_title s0 =
     (let s = norm_str s0 in
      if s = [] then s
      else join '' ''
             (map (\<lambda>w. if isupper w \<and> length w > 1 then w else capitalize w)
                  (re_split_ws s)))"

definition clean_first :: "string \<Rightarrow> string" where
  "clean_first first0 =
     (let first = norm_str first0 in
      if length first = 1 \<or> re_match_initial first then []
      else to_title first)"

definition parse_fullname :: "string \<Rightarrow> exn + (string \<times> string)" where
  \<comment> \<open>\<^verbatim>\<open>tokens[0]\<close> and \<^verbatim>\<open>tokens[-1]\<close> of an empty list raise IndexError\<close>
  "parse_fullname raw0 =
     (let raw = norm_str raw0 in
      if raw = [] then Inr ([], [])
      else if CHR '','' \<in> set raw then
        (let last = strip (takeWhile (\<lambda>c. c \<noteq> CHR '','') raw);
             given = strip (tl (dropWhile (\<lambda>c. c \<noteq> CHR '','') raw));
             tokens = split_ws given;
             first = (case tokens of [] \<Rightarrow> [] | t # _ \<Rightarrow> t)
         in Inr (clean_first first, to_title last))
      else
        (case split_ws raw of
           [] \<Rightarrow> Inl IndexError
         | [t] \<Rightarrow> Inr (clean_first t, [])
         | t # ts \<Rightarrow> Inr (clean_first t, to_title (last ts))))"

subsection \<open>Roster building (\<^verbatim>\<open>student_input.py\<close>)\<close>

text \<open>
  A data frame read with \<^verbatim>\<open>dtype=str, keep_default_na=False\<close> is a list of named
  columns of strings. The frame \<^verbatim>\<open>out\<close> that \<^verbatim>\<open>finalize\<close> receives has the two columns
  \<^verbatim>\<open>first_name\<close> and \<^verbatim>\<open>last_name\<close>: a list of pairs.
\<close>

type_synonym dataframe = "(string \<times> string list) list"

record roster_entry =
  tracking_id :: int
  first_name :: string
  last_name :: string

definition COMBINED_NAME_COL :: string where
  "COMBINED_NAME_COL = ''Student Name''"

definition FIRST_COL :: string where
  "FIRST_COL = ''First Name''"

definition LAST_COL :: string where
  "LAST_COL = ''Last Name''"

definition usable :: "string \<times> string \<Rightarrow> bool" where
  \<comment> \<open>the row filter of \<^verbatim>\<open>finalize\<close>\<close>
  "usable p = (length (fst p) > 0 \<or> length (snd p) > 0)"

definition finalize :: "(string \<times> string) list \<Rightarrow> roster_entry list" where
  \<comment> \<open>\<^verbatim>\<open>sort_values(by=["first_name", "last_name"], kind="mergesort")\<close> is a stable sort on
      the pair of the two columns; \<^const>\<open>sort_key\<close> is the stable sort of the library\<close>
  "finalize out =
     (let kept = filter usable out;
          sorted = sort_key (\<lambda>p. (fst p, snd p)) kept
      in map (\<lambda>(i, p). \<lparr>tracking_id = i, first_name = fst p, last_name = snd p\<rparr>)
             (zip (map int [100 ..< 100 + length sorted]) sorted))"

fun map_exn :: "('a \<Rightarrow> exn + 'b) \<Rightarrow> 'a list \<Rightarrow> exn + 'b list" where
  \<comment> \<open>\<^verbatim>\<open>Series.map(f)\<close> for an \<^verbatim>\<open>f\<close> that may raise\<close>
  "map_exn f [] = Inr []"
| "map_exn f (x # xs) =
     (case f x of Inl e \<Rightarrow> Inl e
      | Inr y \<Rightarrow> (case map_exn f xs of Inl e \<Rightarrow> Inl e | Inr ys \<Rightarrow> Inr (y # ys)))"

definition build_from_combined :: "dataframe \<Rightarrow> string \<Rightarrow> exn + roster_entry list" where
  "build_from_combined df col =
     (case map_of df col of
        None \<Rightarrow> Inl (ValueError col)
      | Some names \<Rightarrow>
          (case map_exn parse_fullname names of
             Inl e \<Rightarrow> Inl e
           | Inr parsed \<Rightarrow> Inr (finalize (zip (map fst parsed) (map snd parsed)))))"

definition build_from_separate :: "dataframe \<Rightarrow> string \<Rightarrow> string \<Rightarrow> exn + roster_entry list" where
  "build_from_separate df first_col last_col =
     (case map_of df first_col of
        None \<Rightarrow> Inl (ValueError first_col)
      | Some firsts \<Rightarrow>
          (case map_of df last_col of
             None \<Rightarrow> Inl (ValueError last_col)
           | Some lasts \<Rightarrow>
               Inr (finalize (zip (map clean_first firsts) (map to_title lasts)))))"

subsection \<open>Roster storage (\<^verbatim>\<open>to_sqlite\<close>, \<^verbatim>\<open>fetch_name_by_tracking_id\<close>)\<close>

text \<open>
  The table \<^verbatim>\<open>names\<close>: its rows in insertion order and whether the unique index on
  \<^verbatim>\<open>tracking_id\<close> exists. A connection whose database has no such table holds \<^const>\<open>None\<close>.
\<close>

record names_row = roster_entry +
  imported_at :: string
  source_file :: string

record names_table =
  rows :: "names_row list"
  unique_idx :: bool

datatype if_exists = Fail | Replace | Append

definition SQL_IF_EXISTS :: if_exists where
  "SQL_IF_EXISTS = Replace"

definition INPUT_CSV_NAME :: string where
  \<comment> \<open>\<^verbatim>\<open>INPUT_CSV_PATH.name\<close>\<close>
  "INPUT_CSV_NAME = ''students.csv''"

definition stamp :: "string \<Rightarrow> roster_entry \<Rightarrow> names_row" where
  "stamp utcnow e =
     \<lparr>tracking_id = tracking_id e, first_name = first_name e, last_name = last_name e,
      imported_at = utcnow, source_file = INPUT_CSV_NAME\<rparr>"

definition to_sqlite ::
  "roster_entry list \<Rightarrow> string \<Rightarrow> names_table option \<Rightarrow> if_exists
     \<Rightarrow> exn option \<times> names_table option" where
  \<comment> \<open>\<^verbatim>\<open>utcnow\<close> is the import time stamp. The result is the exception raised, if any, and
      the table left behind: \<^verbatim>\<open>to_sql\<close> has written the rows when the index is created.\<close>
  "to_sqlite df utcnow tbl mode =
     (let df_sql = map (stamp utcnow) df in
      case mode of
        Replace \<Rightarrow>
          if distinct (map tracking_id df_sql)
          then (None, Some \<lparr>rows = df_sql, unique_idx = True\<rparr>)
          else (Some IntegrityError, Some \<lparr>rows = df_sql, unique_idx = False\<rparr>)
      | Append \<Rightarrow>
          (case tbl of
             None \<Rightarrow> (None, Some \<lparr>rows = df_sql, unique_idx = False\<rparr>)
           | Some t \<Rightarrow>
               if unique_idx t \<and> \<not> distinct (map tracking_id (rows t @ df_sql))
               then (Some IntegrityError, Some t)
               else (None, Some (t\<lparr>rows := rows t @ df_sql\<rparr>)))
      | Fail \<Rightarrow>
          (case tbl of
             None \<Rightarrow> (None, Some \<lparr>rows = df_sql, unique_idx = False\<rparr>)
           | Some t \<Rightarrow> (Some (ValueError ''names''), Some t)))"

definition fetch_name_by_tracking_id ::
  "names_table option \<Rightarrow> int \<Rightarrow> exn + (string \<times> string) option" where
  \<comment> \<open>the statement fails to prepare without the table; an id beyond a 64-bit signed
      integer cannot be bound; \<^verbatim>\<open>fetchone\<close> gives the first matching row\<close>
  "fetch_name_by_tracking_id tbl tid =
     (case tbl of
        None \<Rightarrow> Inl OperationalError
      | Some t \<Rightarrow>
          if tid > 2 ^ 63 - 1 then Inl OverflowError
          else Inr (case find (\<lambda>r. tracking_id r = tid) (rows t) of
                      None \<Rightarrow> None
                    | Some r \<Rightarrow> Some (first_name r, last_name r)))"

subsection \<open>The import flow (\<^verbatim>\<open>menu\<close> and \<^verbatim>\<open>main\<close> of \<^verbatim>\<open>student_input.py\<close>)\<close>

definition menu :: "string \<Rightarrow> exn + string" where
  \<comment> \<open>the argument is the line typed at the prompt\<close>
  "menu typed =
     (let choice = strip typed in
      if choice \<noteq> ''2'' then Inl (SystemExit 1) else Inr choice)"

record import_env =
  typed :: string
  csv :: "exn + dataframe"
  utcnow :: string
  writable :: bool

definition main_import :: "import_env \<Rightarrow> names_table option
    \<Rightarrow> nat \<times> names_table option \<times> roster_entry list option" where
  \<comment> \<open>\<^verbatim>\<open>main\<close> of \<^verbatim>\<open>student_input.py\<close>: the exit status, the table \<^verbatim>\<open>names\<close> afterwards, and
      the roster written to the output file, if it was written. \<^verbatim>\<open>csv\<close> is what
      \<^verbatim>\<open>read_csv\<close> returns or raises, \<^verbatim>\<open>writable\<close> whether \<^verbatim>\<open>write_output_csv\<close> succeeds.
      \<^verbatim>\<open>SystemExit\<close> is not an \<^verbatim>\<open>Exception\<close>: the status of \<^verbatim>\<open>menu\<close> is kept.\<close>
  "main_import env tbl =
     (case menu (typed env) of
        Inl e \<Rightarrow> (case e of SystemExit n \<Rightarrow> (n, tbl, None) | _ \<Rightarrow> (2, tbl, None))
      | Inr choice \<Rightarrow>
          (case csv env of
             Inl e \<Rightarrow> (2, tbl, None)
           | Inr df \<Rightarrow>
               (case (if choice = ''1'' then build_from_combined df COMBINED_NAME_COL
                      else build_from_separate df FIRST_COL LAST_COL) of
                  Inl e \<Rightarrow> (2, tbl, None)
                | Inr cleaned \<Rightarrow>
                    (case to_sqlite cleaned (utcnow env) tbl SQL_IF_EXISTS of
                       (Some e, tbl') \<Rightarrow> (2, tbl', None)
                     | (None, tbl') \<Rightarrow>
                         if writable env then (0, tbl', Some cleaned)
                         else (2, tbl', None)))))"

subsection \<open>The scanner's stores (\<^verbatim>\<open>live_scanner_static.py\<close>)\<close>

text \<open>
  A row of the table \<^verbatim>\<open>scans\<close> without its surrogate key, which is the position of the
  row in the table. The connection holds the table \<^verbatim>\<open>names\<close>, the committed rows of
  \<^verbatim>\<open>scans\<close> and the rows inserted in the open transaction.
\<close>

record scan_row = roster_entry +
  time_hhmm :: string
  date_mmddyyyy :: string

record conn =
  names :: "names_table option"
  scans :: "scan_row list"
  pending :: "scan_row list"

text \<open>
  The file system: the directories, and the CSV files as an association list from path to
  content, a path being the list of its components. A line of a CSV file is the header or
  the data row of one scan.
\<close>

type_synonym path = "string list"

datatype csv_line = Header "string list" | Data scan_row

record filesys =
  dirs :: "path set"
  files :: "(path \<times> csv_line list) list"

definition OUTPUT_DIR :: path where
  "OUTPUT_DIR = [''home'', ''ddb'', ''Documents'', ''daily_list'']"

definition fieldnames :: "string list" where
  "fieldnames = [''tracking_id'', ''first_name'', ''last_name'', ''time_hhmm'', ''date_mmddyyyy'']"

subsection \<open>The clock and \<^verbatim>\<open>strftime\<close>\<close>

text \<open>
  A reading of \<^verbatim>\<open>datetime.now()\<close>, down to the minute. A \<^verbatim>\<open>datetime\<close> has a year from 1 to
  9999, a month from 1 to 12, a day from 1 to 31, an hour below 24 and a minute below 60;
  \<^verbatim>\<open>%m\<close>, \<^verbatim>\<open>%d\<close>, \<^verbatim>\<open>%H\<close>, \<^verbatim>\<open>%M\<close> print two digits and \<^verbatim>\<open>%Y\<close> four.
\<close>

record datetime =
  year :: nat
  month :: nat
  day :: nat
  hour :: nat
  minute :: nat

definition valid_datetime :: "datetime \<Rightarrow> bool" where
  "valid_datetime d =
     (1 \<le> year d \<and> year d \<le> 9999 \<and> 1 \<le> month d \<and> month d \<le> 12 \<and>
      1 \<le> day d \<and> day d \<le> 31 \<and> hour d < 24 \<and> minute d < 60)"

definition digit_char :: "nat \<Rightarrow> char" where
  "digit_char n = char_of (48 + n mod 10)"

definition pad2 :: "nat \<Rightarrow> string" where
  "pad2 n = [digit_char (n div 10), digit_char n]"

definition pad4 :: "nat \<Rightarrow> string" where
  "pad4 n = [digit_char (n div 1000), digit_char (n div 100), digit_char (n div 10), digit_char n]"

definition strftime_HM :: "datetime \<Rightarrow> string" where
  \<comment> \<open>\<^verbatim>\<open>now.strftime("%H:%M")\<close>\<close>
  "strftime_HM d = pad2 (hour d) @ '':'' @ pad2 (minute d)"

definition strftime_mdY :: "datetime \<Rightarrow> string" where
  \<comment> \<open>\<^verbatim>\<open>now.strftime("%m:%d:%Y")\<close>\<close>
  "strftime_mdY d = pad2 (month d) @ '':'' @ pad2 (day d) @ '':'' @ pad4 (year d)"

definition strftime_m_Y :: "datetime \<Rightarrow> string" where
  \<comment> \<open>\<^verbatim>\<open>now.strftime("%m_%Y")\<close>\<close>
  "strftime_m_Y d = pad2 (month d) @ ''_'' @ pad4 (year d)"

definition strftime_m_d_Y_csv :: "datetime \<Rightarrow> string" where
  \<comment> \<open>\<^verbatim>\<open>now.strftime("%m_%d_%Y.csv")\<close>\<close>
  "strftime_m_d_Y_csv d = pad2 (month d) @ ''_'' @ pad2 (day d) @ ''_'' @ pad4 (year d) @ ''.csv''"

subsection \<open>What the environment gives one cycle of the scan loop\<close>

text \<open>
  One cycle reads a line, reads the clock in \<^verbatim>\<open>insert_scan\<close> and again in
  \<^verbatim>\<open>append_daily_csv\<close>, and any of its calls may raise: \<^verbatim>\<open>fault\<close> names the call that
  raises in this cycle, if one does, and what it raises (\<^const>\<open>KeyboardInterrupt\<close> for an
  interrupt that arrives there). \<^verbatim>\<open>int_max_str_digits\<close> is the interpreter's limit on the
  length of a digit string that \<^verbatim>\<open>int\<close> converts (\<^const>\<open>None\<close>: no limit).
\<close>

datatype point =
  AtInput | AtFetch | AtInsert | AtCommit | AtBeep | AtMkdir | AtOpen | AtHeader | AtRow

record env =
  line :: string
  now_insert :: datetime
  now_append :: datetime
  fault :: "(point \<times> exn) option"
  int_max_str_digits :: "nat option"

definition raises :: "env \<Rightarrow> point \<Rightarrow> exn option" where
  "raises e pt =
     (case fault e of None \<Rightarrow> None | Some (p, x) \<Rightarrow> if p = pt then Some x else None)"

definition is_exception :: "exn \<Rightarrow> bool" where
  \<comment> \<open>what \<^verbatim>\<open>except Exception\<close> catches\<close>
  "is_exception x = (case x of KeyboardInterrupt \<Rightarrow> False | SystemExit n \<Rightarrow> False | _ \<Rightarrow> True)"

subsection \<open>Database helpers\<close>

definition insert_scan ::
  "env \<Rightarrow> conn \<Rightarrow> int \<Rightarrow> string \<Rightarrow> string \<Rightarrow> (exn + string \<times> string) \<times> conn" where
  "insert_scan e c tid first last' =
     (let now = now_insert e;
          hhmm = strftime_HM now;
          mdy = strftime_mdY now
      in case raises e AtInsert of
           Some x \<Rightarrow> (Inl x, c)
         | None \<Rightarrow>
             (let c1 = c\<lparr>pending := pending c @
                          [\<lparr>tracking_id = tid, first_name = first, last_name = last',
                            time_hhmm = hhmm, date_mmddyyyy = mdy\<rparr>]\<rparr>
              in case raises e AtCommit of
                   Some x \<Rightarrow> (Inl x, c1)
                 | None \<Rightarrow>
                     (Inr (hhmm, mdy), c1\<lparr>scans := scans c1 @ pending c1, pending := []\<rparr>)))"

subsection \<open>Daily CSV helpers\<close>

definition is_file :: "filesys \<Rightarrow> path \<Rightarrow> bool" where
  "is_file fs p = (map_of (files fs) p \<noteq> None)"

definition exists :: "filesys \<Rightarrow> path \<Rightarrow> bool" where
  \<comment> \<open>\<^verbatim>\<open>path.exists()\<close>\<close>
  "exists fs p = (is_file fs p \<or> p \<in> dirs fs)"

definition mkdir_parents :: "env \<Rightarrow> path \<Rightarrow> filesys \<Rightarrow> exn option \<times> filesys" where
  \<comment> \<open>\<^verbatim>\<open>mkdir(parents=True, exist_ok=True)\<close>: fails where a file is in the way\<close>
  "mkdir_parents e p fs =
     (case raises e AtMkdir of
        Some x \<Rightarrow> (Some x, fs)
      | None \<Rightarrow>
          if list_ex (is_file fs) (prefixes p) then (Some OSError, fs)
          else (None, fs\<lparr>dirs := dirs fs \<union> set (prefixes p)\<rparr>))"

definition get_daily_csv_path ::
  "env \<Rightarrow> path \<Rightarrow> datetime \<Rightarrow> filesys \<Rightarrow> (exn + path) \<times> filesys" where
  "get_daily_csv_path e base_dir now fs =
     (let month_folder = strftime_m_Y now;
          filename = strftime_m_d_Y_csv now;
          out_dir = base_dir @ [month_folder]
      in case mkdir_parents e out_dir fs of
           (Some x, fs1) \<Rightarrow> (Inl x, fs1)
         | (None, fs1) \<Rightarrow> (Inr (out_dir @ [filename]), fs1))"

definition open_append :: "env \<Rightarrow> path \<Rightarrow> filesys \<Rightarrow> exn option \<times> filesys" where
  \<comment> \<open>\<^verbatim>\<open>path.open("a")\<close>: creates the file when there is none; a directory cannot be opened\<close>
  "open_append e p fs =
     (case raises e AtOpen of
        Some x \<Rightarrow> (Some x, fs)
      | None \<Rightarrow>
          if p \<in> dirs fs then (Some OSError, fs)
          else if is_file fs p then (None, fs)
          else (None, fs\<lparr>files := files fs @ [(p, [])]\<rparr>))"

fun append_line :: "path \<Rightarrow> csv_line \<Rightarrow> (path \<times> csv_line list) list \<Rightarrow> (path \<times> csv_line list) list" where
  "append_line p ln [] = []"
| "append_line p ln ((q, c) # fl) =
     (if q = p then (q, c @ [ln]) # fl else (q, c) # append_line p ln fl)"

definition write_line :: "env \<Rightarrow> point \<Rightarrow> path \<Rightarrow> csv_line \<Rightarrow> filesys \<Rightarrow> exn option \<times> filesys" where
  \<comment> \<open>\<^verbatim>\<open>writer.writeheader()\<close> and \<^verbatim>\<open>writer.writerow(row)\<close> on the open file\<close>
  "write_line e pt p ln fs =
     (case raises e pt of
        Some x \<Rightarrow> (Some x, fs)
      | None \<Rightarrow> (None, fs\<lparr>files := append_line p ln (files fs)\<rparr>))"

definition append_daily_csv ::
  "env \<Rightarrow> path \<Rightarrow> scan_row \<Rightarrow> filesys \<Rightarrow> (exn + path) \<times> filesys" where
  "append_daily_csv e base_dir row fs =
     (let now = now_append e in
      case get_daily_csv_path e base_dir now fs of
        (Inl x, fs1) \<Rightarrow> (Inl x, fs1)
      | (Inr path, fs1) \<Rightarrow>
          (let file_exists = exists fs1 path in
           case open_append e path fs1 of
             (Some x, fs2) \<Rightarrow> (Inl x, fs2)
           | (None, fs2) \<Rightarrow>
               (case (if \<not> file_exists then write_line e AtHeader path (Header fieldnames) fs2
                      else (None, fs2)) of
                  (Some x, fs3) \<Rightarrow> (Inl x, fs3)
                | (None, fs3) \<Rightarrow>
                    (case write_line e AtRow path (Data row) fs3 of
                       (Some x, fs4) \<Rightarrow> (Inl x, fs4)
                     | (None, fs4) \<Rightarrow> (Inr path, fs4)))))"

subsection \<open>Input and normalisation\<close>

definition py_int :: "nat option \<Rightarrow> string \<Rightarrow> exn + int" where
  \<comment> \<open>\<^verbatim>\<open>int(digits)\<close> of a string of decimal digits\<close>
  "py_int lim ds =
     (if (case lim of None \<Rightarrow> False | Some k \<Rightarrow> k < length ds) then Inl (ValueError ds)
      else Inr (foldl (\<lambda>a c. 10 * a + (int (of_char c) - 48)) 0 ds))"

definition normalize_scan :: "nat option \<Rightarrow> string \<Rightarrow> int option" where
  "normalize_scan lim s =
     (let digits = filter is_digit s in
      if digits = [] then None
      else (case py_int lim digits of Inl x \<Rightarrow> None | Inr n \<Rightarrow> Some n))"

definition read_line :: "env \<Rightarrow> exn + string" where
  \<comment> \<open>\<^verbatim>\<open>console.input(PROMPT_TEXT).strip()\<close>, with its fallback to \<^verbatim>\<open>input\<close>\<close>
  "read_line e = (case raises e AtInput of Some x \<Rightarrow> Inl x | None \<Rightarrow> Inr (strip (line e)))"

definition beep_success :: "env \<Rightarrow> exn option" where
  \<comment> \<open>catches every \<^verbatim>\<open>Exception\<close> itself\<close>
  "beep_success e =
     (case raises e AtBeep of
        None \<Rightarrow> None
      | Some x \<Rightarrow> if is_exception x then None else Some x)"

subsection \<open>The scan loop (\<^verbatim>\<open>main\<close> of \<^verbatim>\<open>live_scanner_static.py\<close>)\<close>

text \<open>
  The status is what \<^verbatim>\<open>current_line\<close> and \<^verbatim>\<open>subline\<close> show: the prompt of a fresh session,
  an invalid scan with the text typed, an id that was not found, a recorded scan with the
  path of its CSV file, or the exception of a failed cycle.
\<close>

datatype status =
    Idle
  | InvalidScan string
  | IdNotFound int
  | Scanned scan_row path
  | Error exn

record state =
  conn :: conn
  fs :: filesys
  history :: "scan_row list"
  status :: status

datatype outcome = Continue | Stopped

definition appendleft :: "'a \<Rightarrow> 'a list \<Rightarrow> 'a list" where
  \<comment> \<open>\<^verbatim>\<open>appendleft\<close> on a \<^verbatim>\<open>deque(maxlen=3)\<close>\<close>
  "appendleft x h = take 3 (x # h)"

definition fetch :: "env \<Rightarrow> names_table option \<Rightarrow> int \<Rightarrow> exn + (string \<times> string) option" where
  \<comment> \<open>the call of \<^const>\<open>fetch_name_by_tracking_id\<close> on the connection of this cycle\<close>
  "fetch e tbl tid =
     (case raises e AtFetch of Some x \<Rightarrow> Inl x | None \<Rightarrow> fetch_name_by_tracking_id tbl tid)"

definition main_try :: "env \<Rightarrow> state \<Rightarrow> exn option \<times> state" where
  \<comment> \<open>the body of the \<^verbatim>\<open>try\<close> in the loop: the exception that leaves it, if any, and the
      state at that moment\<close>
  "main_try e st =
     (case read_line e of
        Inl x \<Rightarrow> (Some x, st)
      | Inr raw \<Rightarrow>
          (case normalize_scan (int_max_str_digits e) raw of
             None \<Rightarrow> (None, st\<lparr>status := InvalidScan raw\<rparr>)
           | Some tid \<Rightarrow>
               (case fetch e (names (conn st)) tid of
                  Inl x \<Rightarrow> (Some x, st)
                | Inr None \<Rightarrow> (None, st\<lparr>status := IdNotFound tid\<rparr>)
                | Inr (Some (first, last')) \<Rightarrow>
                    (case insert_scan e (conn st) tid first last' of
                       (Inl x, c1) \<Rightarrow> (Some x, st\<lparr>conn := c1\<rparr>)
                     | (Inr (hhmm, mdy), c1) \<Rightarrow>
                         (case beep_success e of
                            Some x \<Rightarrow> (Some x, st\<lparr>conn := c1\<rparr>)
                          | None \<Rightarrow>
                              (let row = \<lparr>tracking_id = tid, first_name = first,
                                          last_name = last', time_hhmm = hhmm,
                                          date_mmddyyyy = mdy\<rparr>
                               in case append_daily_csv e OUTPUT_DIR row (fs st) of
                                    (Inl x, fs1) \<Rightarrow> (Some x, st\<lparr>conn := c1, fs := fs1\<rparr>)
                                  | (Inr csv_path, fs1) \<Rightarrow>
                                      (None, st\<lparr>conn := c1, fs := fs1,
                                                status := Scanned row csv_path,
                                                history := appendleft row (history st)\<rparr>)))))))"

definition main_cycle :: "env \<Rightarrow> state \<Rightarrow> outcome \<times> state" where
  \<comment> \<open>one iteration of \<^verbatim>\<open>while True\<close>: \<^verbatim>\<open>KeyboardInterrupt\<close> breaks, an \<^verbatim>\<open>Exception\<close> becomes the
      status and the loop goes on, anything else leaves the loop\<close>
  "main_cycle e st =
     (case main_try e st of
        (None, st1) \<Rightarrow> (Continue, st1)
      | (Some x, st1) \<Rightarrow>
          if x = KeyboardInterrupt then (Stopped, st1)
          else if is_exception x then (Continue, st1\<lparr>status := Error x\<rparr>)
          else (Stopped, st1))"

fun main_loop :: "env list \<Rightarrow> state \<Rightarrow> state" where
  \<comment> \<open>the loop over the cycles the environment provides, until one stops it\<close>
  "main_loop [] st = st"
| "main_loop (e # es) st =
     (case main_cycle e st of
        (Stopped, st1) \<Rightarrow> st1
      | (Continue, st1) \<Rightarrow> main_loop es st1)"

definition main_init :: "conn \<Rightarrow> filesys \<Rightarrow> state" where
  \<comment> \<open>the state in which \<^verbatim>\<open>main\<close> enters the loop\<close>
  "main_init c fs0 =
     \<lparr>conn = c, fs = fs0\<lparr>dirs := dirs fs0 \<union> set (prefixes OUTPUT_DIR)\<rparr>,
      history = [], status = Idle\<rparr>"

subsection \<open>Notions used to state the properties\<close>

definition names_of :: "roster_entry list \<Rightarrow> (string \<times> string) list" where
  \<comment> \<open>the name columns of a roster\<close>
  "names_of r = map (\<lambda>e. (first_name e, last_name e)) r"

definition name_le :: "roster_entry \<Rightarrow> roster_entry \<Rightarrow> bool" where
  \<comment> \<open>the order by \<^verbatim>\<open>first_name\<close>, then \<^verbatim>\<open>last_name\<close>\<close>
  "name_le a b =
     (first_name a < first_name b \<or> (first_name a = first_name b \<and> last_name a \<le> last_name b))"

text \<open>The data rows of a CSV file and of all CSV files, and the path of the daily file.\<close>

fun line_rows :: "csv_line \<Rightarrow> scan_row list" where
  "line_rows (Header h) = []"
| "line_rows (Data r) = [r]"

definition file_rows :: "csv_line list \<Rightarrow> scan_row list" where
  "file_rows c = concat (map line_rows c)"

definition data_rows :: "filesys \<Rightarrow> scan_row list" where
  "data_rows f = concat (map (\<lambda>pc. file_rows (snd pc)) (files f))"

definition daily_path :: "path \<Rightarrow> datetime \<Rightarrow> path" where
  \<comment> \<open>\<^verbatim>\<open><root>/<MM_YYYY>/<MM_DD_YYYY>.csv\<close>\<close>
  "daily_path base d = base @ [strftime_m_Y d, strftime_m_d_Y_csv d]"

definition same_date :: "datetime \<Rightarrow> datetime \<Rightarrow> bool" where
  "same_date d d1 = (year d = year d1 \<and> month d = month d1 \<and> day d = day d1)"

definition holds_row :: "filesys \<Rightarrow> path \<Rightarrow> scan_row \<Rightarrow> bool" where
  \<comment> \<open>the file at this path has this data row\<close>
  "holds_row f p r = (case map_of (files f) p of None \<Rightarrow> False | Some c \<Rightarrow> Data r \<in> set c)"

definition in_csv :: "filesys \<Rightarrow> scan_row \<Rightarrow> bool" where
  \<comment> \<open>some CSV file has this data row\<close>
  "in_csv f r = list_ex (\<lambda>p. holds_row f p r) (map fst (files f))"

definition grows :: "filesys \<Rightarrow> filesys \<Rightarrow> bool" where
  \<comment> \<open>nothing is removed: directories stay, files are only appended to\<close>
  "grows f f1 = (dirs f \<subseteq> dirs f1 \<and>
     (\<forall>p c. map_of (files f) p = Some c \<longrightarrow> (\<exists>c1. map_of (files f1) p = Some (c @ c1))))"

text \<open>
  What one cycle can do to the state. The table write of a scan is the commit of its row,
  after the rows still pending in the transaction. A cycle records nothing, or it commits
  the row and fails before the append is complete, or it commits the row, appends it to
  the daily file and pushes it on the history.
\<close>

definition committed :: "scan_row \<Rightarrow> conn \<Rightarrow> conn \<Rightarrow> bool" where
  "committed row c c1 =
     (names c1 = names c \<and> scans c1 = scans c @ pending c @ [row] \<and> pending c1 = [])"

definition quiet :: "state \<Rightarrow> state \<Rightarrow> bool" where
  \<comment> \<open>no new success status\<close>
  "quiet st st1 = (case status st1 of Scanned r p \<Rightarrow> status st1 = status st | _ \<Rightarrow> True)"

definition nothing_recorded :: "state \<Rightarrow> state \<Rightarrow> bool" where
  "nothing_recorded st st1 =
     (scans (conn st1) = scans (conn st) \<and> fs st1 = fs st \<and> history st1 = history st
      \<and> quiet st st1)"

definition table_only :: "scan_row \<Rightarrow> state \<Rightarrow> state \<Rightarrow> bool" where
  "table_only row st st1 =
     (committed row (conn st) (conn st1) \<and> history st1 = history st \<and> status st1 = status st
      \<and> data_rows (fs st1) = data_rows (fs st) \<and> grows (fs st) (fs st1))"

definition recorded :: "env \<Rightarrow> scan_row \<Rightarrow> path \<Rightarrow> state \<Rightarrow> state \<Rightarrow> bool" where
  "recorded e row p st st1 =
     (committed row (conn st) (conn st1) \<and> history st1 = appendleft row (history st)
      \<and> status st1 = Scanned row p
      \<and> append_daily_csv e OUTPUT_DIR row (fs st) = (Inr p, fs st1))"

text \<open>The two invariants of the scan loop.\<close>

definition csv_backed :: "state \<Rightarrow> bool" where
  \<comment> \<open>the data rows of the CSV files are, with their multiplicity, committed rows of \<^verbatim>\<open>scans\<close>\<close>
  "csv_backed st = (mset (data_rows (fs st)) \<subseteq># mset (scans (conn st)))"

definition history_backed :: "state \<Rightarrow> bool" where
  \<comment> \<open>every entry of the history, and the scan of a success status, is committed in
      \<^verbatim>\<open>scans\<close> and written in a CSV file; the history has at most 3 entries\<close>
  "history_backed st =
     (list_all (\<lambda>r. r \<in> set (scans (conn st)) \<and> in_csv (fs st) r) (history st)
      \<and> length (history st) \<le> 3
      \<and> (case status st of
            Scanned r p \<Rightarrow> r \<in> set (scans (conn st)) \<and> holds_row (fs st) p r
          | _ \<Rightarrow> True))"

definition sinks :: "state \<Rightarrow> scan_row list \<times> (path \<times> csv_line list) list" where
  \<comment> \<open>the two sinks of a session: the rows of \<^verbatim>\<open>scans\<close> and the CSV files\<close>
  "sinks st = (scans (conn st), files (fs st))"

text \<open>A session used in the examples: a roster with Jane Smith under the id 104.\<close>

definition sample_names :: names_table where
  "sample_names =
     \<lparr>rows = [\<lparr>tracking_id = 104, first_name = ''Jane'', last_name = ''Smith'',
               imported_at = ''2025-08-28T12:00:00Z'', source_file = ''students.csv''\<rparr>],
      unique_idx = True\<rparr>"

definition sample_state :: state where
  "sample_state =
     \<lparr>conn = \<lparr>names = Some sample_names, scans = [], pending = []\<rparr>,
      fs = \<lparr>dirs = {}, files = []\<rparr>, history = [], status = Idle\<rparr>"

definition at_time :: "nat \<Rightarrow> nat \<Rightarrow> nat \<Rightarrow> datetime" where
  \<comment> \<open>a moment of August 2025\<close>
  "at_time d h m = \<lparr>year = 2025, month = 8, day = d, hour = h, minute = m\<rparr>"

definition sample_scan :: "string \<Rightarrow> datetime \<Rightarrow> datetime \<Rightarrow> (point \<times> exn) option \<Rightarrow> env" where
  "sample_scan l t1 t2 flt =
     \<lparr>line = l, now_insert = t1, now_append = t2, fault = flt,
      int_max_str_digits = Some 4300\<rparr>"

definition sample_row :: "string \<Rightarrow> string \<Rightarrow> scan_row" where
  "sample_row hhmm mdy =
     \<lparr>tracking_id = 104, first_name = ''Jane'', last_name = ''Smith'',
      time_hhmm = hhmm, date_mmddyyyy = mdy\<rparr>"

section \<open>Properties\<close>

subsection \<open>Name normalisation\<close>

lemma sub_ws_blank: "c \<in> set (sub_ws s) \<Longrightarrow> is_space c \<Longrightarrow> c = CHR '' ''"
  by (induction s rule: sub_ws.induct) (auto split: if_splits)

lemma newline_is_space: "is_space (CHR 0x0A)"
  by (simp add: is_space_def)

lemma norm_str_no_newline: "CHR 0x0A \<notin> set (norm_str s)"
  using sub_ws_blank [of "CHR 0x0A" "strip s"] newline_is_space
  by (auto simp: norm_str_def)

lemma re_match_initial_iff:
  assumes "CHR 0x0A \<notin> set n"
  shows "re_match_initial n \<longleftrightarrow> (\<exists>c. is_AZ c \<and> (n = [c] \<or> n = [c, CHR ''.'']))"
proof (cases n)
  case Nil
  then show ?thesis by simp
next
  case (Cons c r)
  note n = Cons
  show ?thesis
  proof (cases r)
    case Nil
    with n show ?thesis by simp
  next
    case (Cons d r')
    with n assms show ?thesis
      by (cases r') (auto simp: at_dollar_def)
  qed
qed

lemma dropWhile_keeps: "c \<in> set xs \<Longrightarrow> \<not> P c \<Longrightarrow> c \<in> set (dropWhile P xs)"
  by (induction xs) auto

lemma strip_keeps: "c \<in> set t \<Longrightarrow> \<not> is_space c \<Longrightarrow> c \<in> set (strip t)"
  by (simp add: strip_def dropWhile_keeps)

lemma sub_ws_keeps: "c \<in> set t \<Longrightarrow> \<not> is_space c \<Longrightarrow> c \<in> set (sub_ws t)"
proof (induction t rule: sub_ws.induct)
  case 1
  then show ?case by simp
next
  case (2 d cs)
  show ?case
  proof (cases "is_space d")
    case True
    with 2(3,4) have "c \<in> set cs" by auto
    then have "c \<in> set (dropWhile is_space cs)"
      using 2(4) by (rule dropWhile_keeps)
    with True 2(1) 2(4) show ?thesis by simp
  next
    case False
    with 2(2,3,4) show ?thesis by auto
  qed
qed

lemma strip_has_letter:
  assumes "strip t \<noteq> []"
  shows "\<exists>c \<in> set (strip t). \<not> is_space c"
proof -
  let ?u = "dropWhile is_space (rev (dropWhile is_space t))"
  from assms have u: "?u \<noteq> []" by (simp add: strip_def)
  then have "\<not> is_space (hd ?u)" by (rule hd_dropWhile)
  moreover from u have "hd ?u \<in> set (strip t)" by (simp add: strip_def)
  ultimately show ?thesis by blast
qed

lemma sub_ws_Nil_iff: "sub_ws t = [] \<longleftrightarrow> t = []"
  by (cases t) auto

lemma norm_str_Nil: "norm_str [] = []"
  by (simp add: norm_str_def strip_def)

lemma norm_str_again:
  assumes "norm_str s \<noteq> []"
  shows "norm_str (norm_str s) \<noteq> []"
proof -
  from assms have "strip s \<noteq> []" by (simp add: norm_str_def sub_ws_Nil_iff)
  then obtain c where c: "c \<in> set (strip s)" "\<not> is_space c"
    using strip_has_letter by blast
  then have "c \<in> set (norm_str s)" by (simp add: norm_str_def sub_ws_keeps)
  then have "c \<in> set (strip (norm_str s))" using c(2) by (simp add: strip_keeps)
  then have "strip (norm_str s) \<noteq> []" by auto
  then show ?thesis by (simp add: norm_str_def [of "norm_str s"] sub_ws_Nil_iff)
qed

lemma concat_re_split_ws: "concat (re_split_ws x) = x"
proof (induction x rule: re_split_ws.induct)
  case (1 s)
  show ?case
  proof (cases "dropWhile (\<lambda>c. \<not> is_space c) s")
    case Nil
    show ?thesis by (subst re_split_ws.simps) (simp only: Nil list.case concat.simps append_Nil2)
  next
    case (Cons c r)
    have "takeWhile (\<lambda>c. \<not> is_space c) s @ c # r = s"
      using takeWhile_dropWhile_id [of "\<lambda>c. \<not> is_space c" s] Cons by simp
    moreover have "takeWhile is_space r @ dropWhile is_space r = r" by simp
    ultimately have "takeWhile (\<lambda>c. \<not> is_space c) s @ c # takeWhile is_space r
        @ concat (re_split_ws (dropWhile is_space r)) = s"
      using 1 [OF Cons] by simp
    with Cons show ?thesis by (subst re_split_ws.simps) simp
  qed
qed

lemma length_join: "length (concat xs) \<le> length (join sep xs)"
  by (induction sep xs rule: join.induct) auto

lemma length_capitalize: "length (capitalize w) = length w"
  by (simp add: capitalize_def split: list.splits)

lemma length_concat_map:
  "(\<And>w. length (f w) = length w) \<Longrightarrow> length (concat (map f ps)) = length (concat ps)"
  by (induction ps) auto

lemma to_title_Nil_iff: "to_title x = [] \<longleftrightarrow> norm_str x = []"
proof
  assume t: "to_title x = []"
  show "norm_str x = []"
  proof (rule ccontr)
    assume n: "norm_str x \<noteq> []"
    let ?f = "\<lambda>w. if isupper w \<and> length w > 1 then w else capitalize w"
    have "length (concat (map ?f (re_split_ws (norm_str x))))
          = length (concat (re_split_ws (norm_str x)))"
      by (rule length_concat_map) (simp add: length_capitalize)
    then have "length (norm_str x) \<le> length (join '' '' (map ?f (re_split_ws (norm_str x))))"
      using length_join [of "map ?f (re_split_ws (norm_str x))" "'' ''"]
      by (simp add: concat_re_split_ws)
    with n have "join '' '' (map ?f (re_split_ws (norm_str x))) \<noteq> []" by auto
    with n t show False by (simp add: to_title_def Let_def)
  qed
next
  assume "norm_str x = []"
  then show "to_title x = []" by (simp add: to_title_def Let_def)
qed

lemma dropWhile_none: "\<not> list_ex P xs \<Longrightarrow> dropWhile P xs = xs"
  by (cases xs) auto

lemma strip_word: "\<not> list_ex is_space t \<Longrightarrow> strip t = t"
  by (simp add: strip_def dropWhile_none list_ex_iff)

lemma sub_ws_word: "\<not> list_ex is_space t \<Longrightarrow> sub_ws t = t"
  by (induction t) auto

lemma norm_str_word: "\<not> list_ex is_space t \<Longrightarrow> norm_str t = t"
  by (simp add: norm_str_def strip_word sub_ws_word)

lemma re_split_ws_word: "\<not> list_ex is_space t \<Longrightarrow> re_split_ws t = [t]"
proof -
  assume "\<not> list_ex is_space t"
  then have d: "dropWhile (\<lambda>c. \<not> is_space c) t = []" by (simp add: list_ex_iff)
  show ?thesis by (subst re_split_ws.simps) (simp only: d list.case)
qed

lemma to_title_word:
  "\<not> list_ex is_space t \<Longrightarrow> t \<noteq> [] \<Longrightarrow>
   to_title t = (if isupper t \<and> length t > 1 then t else capitalize t)"
  by (simp add: to_title_def Let_def norm_str_word re_split_ws_word)




text \<open>
  C8. \<^const>\<open>to_title\<close> does not keep the separators of the normalised input: the split keeps
  each separator as a piece of its own, and the pieces are joined with one more space on
  each side, so the single space of \<^verbatim>\<open>Mary Ann\<close> comes back as three.
\<close>

theorem to_title_triples_separator: "to_title ''Mary Ann'' = ''Mary   Ann''"
  by code_simp

subsection \<open>Roster building and storage\<close>

lemma finalize_names: "names_of (finalize out) = sort_key (\<lambda>p. p) (filter usable out)"
  by (simp add: names_of_def finalize_def Let_def o_def split_def)

lemma finalize_ids:
  "map tracking_id (finalize out) = map int [100 ..< 100 + length (filter usable out)]"
  by (simp add: finalize_def Let_def o_def split_def)

lemma finalize_length: "length (finalize out) = length (filter usable out)"
  by (simp add: finalize_def Let_def)

lemma finalize_distinct: "distinct (map tracking_id (finalize out))"
  by (simp add: finalize_ids distinct_map inj_on_def del: upt_Suc)

lemma usable_iff: "usable p \<longleftrightarrow> \<not> (fst p = [] \<and> snd p = [])"
  by (auto simp: usable_def)

lemma name_le_prod:
  "name_le a b \<longleftrightarrow> (first_name a, last_name a) \<le> (first_name b, last_name b)"
  by (auto simp: name_le_def less_eq_prod_def)

lemma sorted_names_of: "sorted (names_of r) = sorted_wrt name_le r"
proof -
  have "name_le = (\<lambda>a b. (first_name a, last_name a) \<le> (first_name b, last_name b))"
    by (intro ext) (rule name_le_prod)
  then show ?thesis
    by (simp only: names_of_def sorted_wrt_map)
qed

text \<open>
  C1. For every input table, the roster that \<^const>\<open>finalize\<close> builds holds exactly the rows
  whose first and last names are not both empty (as a multiset), in ascending order of
  first name, then last name; the sort is stable (the rows of one key keep their order);
  the tracking ids are 100, 101, ... in that order, without duplicate or gap.
\<close>

theorem finalize_roster:
  "mset (names_of (finalize out)) = mset (filter (\<lambda>p. \<not> (fst p = [] \<and> snd p = [])) out)
   \<and> sorted_wrt name_le (finalize out)
   \<and> (\<forall>k. filter (\<lambda>p. p = k) (names_of (finalize out))
          = filter (\<lambda>p. p = k) (filter (\<lambda>p. \<not> (fst p = [] \<and> snd p = [])) out))
   \<and> map tracking_id (finalize out) = map int [100 ..< 100 + length (finalize out)]
   \<and> distinct (map tracking_id (finalize out))"
proof -
  have u: "filter usable out = filter (\<lambda>p. \<not> (fst p = [] \<and> snd p = [])) out"
    by (rule filter_cong) (auto simp: usable_iff)
  have a: "mset (names_of (finalize out)) = mset (filter usable out)"
    by (simp add: finalize_names)
  have "sorted (names_of (finalize out))"
    using sorted_sort_key [of "\<lambda>p. p" "filter usable out"] by (simp add: finalize_names)
  then have b: "sorted_wrt name_le (finalize out)"
    by (simp add: sorted_names_of)
  have c: "filter (\<lambda>p. p = k) (names_of (finalize out)) = filter (\<lambda>p. p = k) (filter usable out)"
    for k
    using sort_key_stable [of "\<lambda>p. p" k "filter usable out"] by (simp add: finalize_names)
  have d: "map tracking_id (finalize out) = map int [100 ..< 100 + length (finalize out)]"
    by (simp add: finalize_ids finalize_length)
  from a b c d finalize_distinct [of out] show ?thesis
    unfolding u by blast
qed

lemma find_distinct_key:
  "distinct (map f xs) \<Longrightarrow> x \<in> set xs \<Longrightarrow> find (\<lambda>r. f r = f x) xs = Some x"
  by (induction xs) (auto simp: image_iff)

lemma finalize_id_bound:
  assumes "e \<in> set (finalize out)"
  shows "tracking_id e < 100 + int (length out)"
proof -
  have "tracking_id e \<in> set (map tracking_id (finalize out))"
    using assms by simp
  then have "tracking_id e \<in> int ` {100 ..< 100 + length (filter usable out)}"
    by (simp add: finalize_ids)
  then obtain n where "tracking_id e = int n" "n < 100 + length (filter usable out)"
    by auto
  moreover have "length (filter usable out) \<le> length out"
    by simp
  ultimately show ?thesis by linarith
qed

lemma stamp_sel [simp]:
  "tracking_id (stamp t e) = tracking_id e"
  "first_name (stamp t e) = first_name e"
  "last_name (stamp t e) = last_name e"
  by (simp_all add: stamp_def)

text \<open>
  C2. Round trip: a roster built by \<^const>\<open>finalize\<close> is stored by \<^const>\<open>to_sqlite\<close> in replace
  mode without error (whatever table was there before), and looking up the tracking id of
  any of its entries in the stored table returns the first and last name of that entry.
  The ids must fit the 64-bit integers of the store: the input has at most
  \<open>2^63 - 100\<close> rows.
\<close>

theorem roster_round_trip:
  assumes size: "int (length out) \<le> 2 ^ 63 - 100"
    and e: "e \<in> set (finalize out)"
  shows "\<exists>t. to_sqlite (finalize out) now tbl Replace = (None, Some t)
          \<and> fetch_name_by_tracking_id (Some t) (tracking_id e)
              = Inr (Some (first_name e, last_name e))"
proof -
  let ?df = "map (stamp now) (finalize out)"
  let ?t = "\<lparr>rows = ?df, unique_idx = True\<rparr>"
  have d': "distinct (map tracking_id ?df)"
    using finalize_distinct [of out] by (simp add: o_def)
  then have w: "to_sqlite (finalize out) now tbl Replace = (None, Some ?t)"
    by (simp add: to_sqlite_def Let_def)
  have "stamp now e \<in> set ?df"
    using e by simp
  from find_distinct_key [OF d' this]
  have f: "find (\<lambda>r. tracking_id r = tracking_id e) ?df = Some (stamp now e)"
    by simp
  have "tracking_id e \<le> 2 ^ 63 - 1"
    using finalize_id_bound [OF e] size by linarith
  then have "fetch_name_by_tracking_id (Some ?t) (tracking_id e)
               = Inr (Some (first_name e, last_name e))"
    by (simp add: fetch_name_by_tracking_id_def f)
  with w show ?thesis by blast
qed

text \<open>
  The round trip on the rows (Amy, Zed), an unusable row and (Amy, Lee): Amy Zed receives
  the id 101 and is found under it.
\<close>

theorem roster_round_trip_witness:
  "int (length [(''Amy'', ''Zed''), ([], []), (''Amy'', ''Lee'')]) \<le> 2 ^ 63 - 100
   \<and> \<lparr>tracking_id = 101, first_name = ''Amy'', last_name = ''Zed''\<rparr>
       \<in> set (finalize [(''Amy'', ''Zed''), ([], []), (''Amy'', ''Lee'')])
   \<and> (\<exists>t. to_sqlite (finalize [(''Amy'', ''Zed''), ([], []), (''Amy'', ''Lee'')])
                ''2025-08-28T12:00:00Z'' None Replace = (None, Some t)
          \<and> fetch_name_by_tracking_id (Some t) 101 = Inr (Some (''Amy'', ''Zed'')))"
proof -
  let ?out = "[(''Amy'', ''Zed''), ([], []), (''Amy'', ''Lee'')]"
  let ?e = "\<lparr>tracking_id = 101, first_name = ''Amy'', last_name = ''Zed''\<rparr>"
  have s: "int (length ?out) \<le> 2 ^ 63 - 100"
    by simp
  have f: "finalize ?out = [\<lparr>tracking_id = 100, first_name = ''Amy'', last_name = ''Lee''\<rparr>, ?e]"
    by code_simp
  have m: "?e \<in> set (finalize ?out)"
    unfolding f by simp
  from roster_round_trip [OF s m, of "''2025-08-28T12:00:00Z''" None] s m
  show ?thesis by simp
qed

subsection \<open>The import flow\<close>

lemma menu_eq: "menu t = (if strip t = ''2'' then Inr ''2'' else Inl (SystemExit 1))"
  by (simp add: menu_def Let_def)

lemma combined_example:
  "build_from_combined [(COMBINED_NAME_COL, [''Smith, Jane A.''])] COMBINED_NAME_COL
     = Inr [\<lparr>tracking_id = 100, first_name = ''Jane'', last_name = ''Smith''\<rparr>]"
  by code_simp

lemma separate_example:
  "main_import \<lparr>typed = ''2'',
                csv = Inr [(''First Name'', [''jane'']), (''Last Name'', [''smith''])],
                utcnow = ''2025-08-28T12:00:00Z'', writable = True\<rparr> None =
     (0, Some \<lparr>rows = [\<lparr>tracking_id = 100, first_name = ''Jane'', last_name = ''Smith'',
                        imported_at = ''2025-08-28T12:00:00Z'',
                        source_file = ''students.csv''\<rparr>],
               unique_idx = True\<rparr>,
      Some [\<lparr>tracking_id = 100, first_name = ''Jane'', last_name = ''Smith''\<rparr>])"
  by code_simp

text \<open>
  C9, as amended. The import flow offers one input mode, the separate one: \<^const>\<open>menu\<close>
  accepts the choice \<^verbatim>\<open>2\<close> only and exits with status 1 on any other line, \<^verbatim>\<open>1\<close> included,
  before anything is read or written, so every roster that the flow exports is the one
  \<^const>\<open>build_from_separate\<close> builds from the configured first and last name columns.
  \<^const>\<open>build_from_combined\<close>, called on a table whose combined column holds
  \<^verbatim>\<open>Smith, Jane A.\<close>, yields the entry (Jane, Smith) with the id 100.
\<close>

theorem import_flow_modes:
  "menu t = (if strip t = ''2'' then Inr ''2'' else Inl (SystemExit 1))
   \<and> (strip (typed env) \<noteq> ''2'' \<longrightarrow> main_import env tbl = (1, tbl, None))
   \<and> (main_import env tbl = (0, tbl', Some r) \<longrightarrow>
        (\<exists>df. csv env = Inr df \<and> build_from_separate df FIRST_COL LAST_COL = Inr r))
   \<and> build_from_combined [(COMBINED_NAME_COL, [''Smith, Jane A.''])] COMBINED_NAME_COL
        = Inr [\<lparr>tracking_id = 100, first_name = ''Jane'', last_name = ''Smith''\<rparr>]"
proof (intro conjI impI)
  show "menu t = (if strip t = ''2'' then Inr ''2'' else Inl (SystemExit 1))"
    by (rule menu_eq)
next
  assume "strip (typed env) \<noteq> ''2''"
  then show "main_import env tbl = (1, tbl, None)"
    by (simp add: main_import_def menu_eq)
next
  assume ok: "main_import env tbl = (0, tbl', Some r)"
  show "\<exists>df. csv env = Inr df \<and> build_from_separate df FIRST_COL LAST_COL = Inr r"
  proof (cases "strip (typed env) = ''2''")
    case False
    then have "main_import env tbl = (1, tbl, None)"
      by (simp add: main_import_def menu_eq)
    with ok show ?thesis by simp
  next
    case True
    with ok show ?thesis
      by (auto simp: main_import_def menu_eq
               split: sum.splits prod.splits option.splits if_splits)
  qed
next
  show "build_from_combined [(COMBINED_NAME_COL, [''Smith, Jane A.''])] COMBINED_NAME_COL
          = Inr [\<lparr>tracking_id = 100, first_name = ''Jane'', last_name = ''Smith''\<rparr>]"
    by (rule combined_example)
qed

text \<open>
  The two cases on concrete runs: the choice \<^verbatim>\<open>1\<close> exits with status 1, and the choice
  \<^verbatim>\<open>2\<close> on a table with the two name columns exports the roster of
  \<^const>\<open>build_from_separate\<close>.
\<close>

theorem import_flow_modes_witness:
  "strip ''1'' \<noteq> ''2''
   \<and> main_import \<lparr>typed = ''1'', csv = Inr [(''Student Name'', [''Smith, Jane A.''])],
                   utcnow = ''2025-08-28T12:00:00Z'', writable = True\<rparr> None = (1, None, None)
   \<and> main_import \<lparr>typed = ''2'',
                   csv = Inr [(''First Name'', [''jane'']), (''Last Name'', [''smith''])],
                   utcnow = ''2025-08-28T12:00:00Z'', writable = True\<rparr> None =
      (0, Some \<lparr>rows = [\<lparr>tracking_id = 100, first_name = ''Jane'', last_name = ''Smith'',
                         imported_at = ''2025-08-28T12:00:00Z'',
                         source_file = ''students.csv''\<rparr>],
                unique_idx = True\<rparr>,
       Some [\<lparr>tracking_id = 100, first_name = ''Jane'', last_name = ''Smith''\<rparr>])
   \<and> build_from_separate [(''First Name'', [''jane'']), (''Last Name'', [''smith''])]
        FIRST_COL LAST_COL
        = Inr [\<lparr>tracking_id = 100, first_name = ''Jane'', last_name = ''Smith''\<rparr>]"
proof -
  let ?e1 = "\<lparr>typed = ''1'', csv = Inr [(''Student Name'', [''Smith, Jane A.''])],
              utcnow = ''2025-08-28T12:00:00Z'', writable = True\<rparr>"
  let ?e2 = "\<lparr>typed = ''2'',
              csv = Inr [(''First Name'', [''jane'']), (''Last Name'', [''smith''])],
              utcnow = ''2025-08-28T12:00:00Z'', writable = True\<rparr>"
  have s: "strip ''1'' \<noteq> ''2''"
    by code_simp
  have a: "main_import ?e1 None = (1, None, None)"
    using import_flow_modes [of "''1''" ?e1 None] s by simp
  have b: "build_from_separate [(''First Name'', [''jane'']), (''Last Name'', [''smith''])]
             FIRST_COL LAST_COL
           = Inr [\<lparr>tracking_id = 100, first_name = ''Jane'', last_name = ''Smith''\<rparr>]"
    using import_flow_modes [of "''2''" ?e2 None _
        "[\<lparr>tracking_id = 100, first_name = ''Jane'', last_name = ''Smith''\<rparr>]"]
      separate_example by simp
  from s a b separate_example show ?thesis by simp
qed

text \<open>
  C9 as stated fails: with the choice \<^verbatim>\<open>1\<close> and a table whose combined column holds
  \<^verbatim>\<open>Smith, Jane A.\<close>, the flow exits with status 1 and builds no roster.
\<close>

theorem import_combined_rejected:
  "main_import \<lparr>typed = ''1'', csv = Inr [(''Student Name'', [''Smith, Jane A.''])],
                utcnow = ''2025-08-28T12:00:00Z'', writable = True\<rparr> None = (1, None, None)"
  by code_simp

subsection \<open>What one append and one cycle do\<close>

lemma file_rows_simps [simp]:
  "file_rows [] = []"
  "file_rows (c @ [ln]) = file_rows c @ line_rows ln"
  "file_rows (ln # c) = line_rows ln @ file_rows c"
  by (simp_all add: file_rows_def)

lemma map_of_append_line:
  "map_of (append_line p ln fl) q =
     (if q = p then map_option (\<lambda>c. c @ [ln]) (map_of fl p) else map_of fl q)"
  by (induction fl) auto

lemma rows_append_line:
  "map_of fl p = Some c \<Longrightarrow>
   mset (concat (map (\<lambda>pc. file_rows (snd pc)) (append_line p ln fl)))
     = mset (concat (map (\<lambda>pc. file_rows (snd pc)) fl)) + mset (line_rows ln)"
  by (induction fl) (auto split: if_splits)

lemma append_line_absent: "map_of fl p = None \<Longrightarrow> append_line p ln fl = fl"
  by (induction fl) (auto split: if_splits)

lemma map_of_snoc_absent:
  "map_of fl p = None \<Longrightarrow> map_of (fl @ [(p, c)]) q = (if q = p then Some c else map_of fl q)"
  by (induction fl) (auto split: if_splits)

lemma append_line_snoc:
  "map_of fl p = None \<Longrightarrow> append_line p ln (fl @ [(p, c)]) = fl @ [(p, c @ [ln])]"
  by (induction fl) (auto split: if_splits)

lemma daily_not_prefix: "daily_path base d \<notin> set (prefixes (base @ [strftime_m_Y d]))"
  by (auto simp: daily_path_def in_set_prefixes)

lemma get_daily_csv_path_cases:
  assumes "get_daily_csv_path e base d f = (res, f1)"
  shows "files f1 = files f \<and> dirs f \<subseteq> dirs f1
       \<and> (case res of
            Inl x \<Rightarrow> f1 = f
          | Inr p \<Rightarrow> p = daily_path base d \<and> raises e AtMkdir = None
                     \<and> dirs f1 = dirs f \<union> set (prefixes (base @ [strftime_m_Y d])))"
  using assms
  by (auto simp: get_daily_csv_path_def mkdir_parents_def Let_def daily_path_def
           split: option.splits if_splits)

lemma open_append_cases:
  assumes "open_append e p f = (res, f1)"
  shows "dirs f1 = dirs f
       \<and> (case res of
            Some x \<Rightarrow> f1 = f
          | None \<Rightarrow> p \<notin> dirs f \<and> raises e AtOpen = None
                     \<and> files f1 = (if is_file f p then files f else files f @ [(p, [])]))"
  using assms
  by (auto simp: open_append_def split: option.splits if_splits)

lemma write_line_cases:
  assumes "write_line e pt p ln f = (res, f1)"
  shows "dirs f1 = dirs f
       \<and> (case res of
            Some x \<Rightarrow> f1 = f
          | None \<Rightarrow> raises e pt = None \<and> files f1 = append_line p ln (files f))"
  using assms
  by (auto simp: write_line_def split: option.splits if_splits)

lemma append_daily_csv_ok:
  assumes "append_daily_csv e base row f = (Inr p, f1)"
  shows "p = daily_path base (now_append e)
       \<and> p \<notin> dirs f
       \<and> dirs f1 = dirs f \<union> set (prefixes (base @ [strftime_m_Y (now_append e)]))
       \<and> files f1 = (case map_of (files f) p of
                       None \<Rightarrow> files f @ [(p, [Header fieldnames, Data row])]
                     | Some c \<Rightarrow> append_line p (Data row) (files f))"
  using assms daily_not_prefix [of base "now_append e"]
  by (auto simp: append_daily_csv_def get_daily_csv_path_def mkdir_parents_def open_append_def
        write_line_def Let_def exists_def is_file_def daily_path_def append_line_absent
        append_line_snoc
      split: option.splits if_splits prod.splits sum.splits)

lemma append_daily_csv_failed:
  assumes "append_daily_csv e base row f = (Inl x, f1)"
  shows "dirs f \<subseteq> dirs f1
       \<and> (files f1 = files f
          \<or> (map_of (files f) (daily_path base (now_append e)) = None
             \<and> (files f1 = files f @ [(daily_path base (now_append e), [])]
                \<or> files f1 = files f @ [(daily_path base (now_append e), [Header fieldnames])])))"
  using assms daily_not_prefix [of base "now_append e"]
  by (auto simp: append_daily_csv_def get_daily_csv_path_def mkdir_parents_def open_append_def
        write_line_def Let_def exists_def is_file_def daily_path_def append_line_absent
        append_line_snoc
      split: option.splits if_splits prod.splits sum.splits)

lemma insert_scan_ok:
  assumes "insert_scan e c tid f l = (Inr (hhmm, mdy), c1)"
  shows "hhmm = strftime_HM (now_insert e) \<and> mdy = strftime_mdY (now_insert e)
       \<and> committed \<lparr>tracking_id = tid, first_name = f, last_name = l,
                     time_hhmm = hhmm, date_mmddyyyy = mdy\<rparr> c c1"
  using assms
  by (auto simp: insert_scan_def Let_def committed_def split: option.splits)

lemma insert_scan_failed:
  assumes "insert_scan e c tid f l = (Inl x, c1)"
  shows "names c1 = names c \<and> scans c1 = scans c"
  using assms
  by (auto simp: insert_scan_def Let_def split: option.splits)

lemma grows_refl [simp]: "grows f f"
  by (simp add: grows_def)

lemma append_ok_rows:
  assumes "append_daily_csv e base row f = (Inr p, f1)"
  shows "mset (data_rows f1) = mset (data_rows f) + {#row#}"
proof (cases "map_of (files f) p")
  case None
  with append_daily_csv_ok [OF assms] show ?thesis
    by (simp add: data_rows_def)
next
  case (Some c)
  with append_daily_csv_ok [OF assms] rows_append_line [OF Some, of "Data row"] show ?thesis
    by (simp add: data_rows_def)
qed

lemma append_ok_file:
  assumes "append_daily_csv e base row f = (Inr p, f1)"
  shows "map_of (files f1) q =
           (if q = p then Some ((case map_of (files f) p of None \<Rightarrow> [Header fieldnames] | Some c \<Rightarrow> c)
                                @ [Data row])
            else map_of (files f) q)"
proof (cases "map_of (files f) p")
  case None
  from append_daily_csv_ok [OF assms] None
  have "files f1 = files f @ [(p, [Header fieldnames, Data row])]" by simp
  with None show ?thesis
    by (simp only: map_of_snoc_absent [OF None]) simp
next
  case (Some c)
  from append_daily_csv_ok [OF assms] Some
  have "files f1 = append_line p (Data row) (files f)" by simp
  with Some show ?thesis
    by (simp add: map_of_append_line)
qed

lemma append_ok_grows:
  assumes "append_daily_csv e base row f = (Inr p, f1)"
  shows "grows f f1"
  using append_daily_csv_ok [OF assms] append_ok_file [OF assms]
  by (auto simp: grows_def)

lemma append_failed_rows:
  assumes "append_daily_csv e base row f = (Inl x, f1)"
  shows "data_rows f1 = data_rows f"
  using append_daily_csv_failed [OF assms]
  by (auto simp: data_rows_def)

lemma append_failed_grows:
  assumes "append_daily_csv e base row f = (Inl x, f1)"
  shows "grows f f1"
proof -
  let ?p = "daily_path base (now_append e)"
  from append_daily_csv_failed [OF assms]
  have d: "dirs f \<subseteq> dirs f1"
    and c: "files f1 = files f
          \<or> (map_of (files f) ?p = None
             \<and> (\<exists>c. files f1 = files f @ [(?p, c)]))"
    by auto
  show ?thesis
  proof (cases "files f1 = files f")
    case True
    with d show ?thesis by (simp add: grows_def)
  next
    case False
    with c obtain c0 where n: "map_of (files f) ?p = None" and e: "files f1 = files f @ [(?p, c0)]"
      by auto
    have "map_of (files f1) q = Some c1" if "map_of (files f) q = Some c1" for q c1
      using that n unfolding e by (simp only: map_of_snoc_absent [OF n]) auto
    with d show ?thesis by (simp add: grows_def)
  qed
qed

lemma quiet_same [simp]: "status st1 = status st \<Longrightarrow> quiet st st1"
  by (simp add: quiet_def split: status.splits)

lemma main_try_shape:
  assumes "main_try e st = (res, st1)"
  shows "names (conn st1) = names (conn st)
       \<and> (nothing_recorded st st1
          \<or> (\<exists>row x. res = Some x \<and> table_only row st st1)
          \<or> (\<exists>row p. res = None \<and> recorded e row p st st1))"
proof (cases "read_line e")
  case (Inl x)
  with assms have "st1 = st" by (simp add: main_try_def)
  then show ?thesis by (simp add: nothing_recorded_def)
next
  case (Inr raw)
  note raw = Inr
  show ?thesis
  proof (cases "normalize_scan (int_max_str_digits e) raw")
    case None
    with assms raw have "st1 = st\<lparr>status := InvalidScan raw\<rparr>"
      by (simp add: main_try_def)
    then show ?thesis by (simp add: nothing_recorded_def quiet_def)
  next
    case (Some tid)
    note tid = Some
    show ?thesis
    proof (cases "fetch e (names (conn st)) tid")
      case (Inl x)
      with assms raw tid have "st1 = st" by (simp add: main_try_def)
      then show ?thesis by (simp add: nothing_recorded_def)
    next
      case (Inr found)
      note found = Inr
      show ?thesis
      proof (cases found)
        case None
        with assms raw tid found have "st1 = st\<lparr>status := IdNotFound tid\<rparr>"
          by (simp add: main_try_def)
        then show ?thesis by (simp add: nothing_recorded_def quiet_def)
      next
        case (Some nm)
        obtain f l where nm: "nm = (f, l)" by (cases nm)
        obtain r c1 where ins: "insert_scan e (conn st) tid f l = (r, c1)" by force
        show ?thesis
        proof (cases r)
          case (Inl x)
          with assms raw tid found Some nm ins have "st1 = st\<lparr>conn := c1\<rparr>"
            by (simp add: main_try_def)
          with insert_scan_failed [OF ins [unfolded Inl]] show ?thesis
            by (simp add: nothing_recorded_def)
        next
          case (Inr tm)
          obtain hhmm mdy where tm: "tm = (hhmm, mdy)" by (cases tm)
          let ?row = "\<lparr>tracking_id = tid, first_name = f, last_name = l,
                       time_hhmm = hhmm, date_mmddyyyy = mdy\<rparr>"
          from insert_scan_ok [OF ins [unfolded Inr tm]]
          have com: "committed ?row (conn st) c1" by blast
          then have nms: "names c1 = names (conn st)" by (simp add: committed_def)
          show ?thesis
          proof (cases "beep_success e")
            case (Some x)
            with assms raw tid found \<open>found = Some nm\<close> nm ins Inr tm
            have "res = Some x \<and> st1 = st\<lparr>conn := c1\<rparr>"
              by (simp add: main_try_def)
            with com nms show ?thesis
              by (auto simp: table_only_def)
          next
            case None
            obtain r2 f2 where app: "append_daily_csv e OUTPUT_DIR ?row (fs st) = (r2, f2)"
              by force
            show ?thesis
            proof (cases r2)
              case (Inl x)
              with assms raw tid found \<open>found = Some nm\<close> nm ins Inr tm None app
              have "res = Some x \<and> st1 = st\<lparr>conn := c1, fs := f2\<rparr>"
                by (simp add: main_try_def Let_def)
              with com nms append_failed_rows [OF app [unfolded Inl]]
                append_failed_grows [OF app [unfolded Inl]]
              show ?thesis
                by (auto simp: table_only_def)
            next
              case (Inr p)
              with assms raw tid found \<open>found = Some nm\<close> nm ins \<open>r = Inr tm\<close> tm None app
              have "res = None \<and> st1 = st\<lparr>conn := c1, fs := f2, status := Scanned ?row p,
                                          history := appendleft ?row (history st)\<rparr>"
                by (simp add: main_try_def Let_def)
              with com nms app [unfolded Inr] show ?thesis
                by (auto simp: recorded_def)
            qed
          qed
        qed
      qed
    qed
  qed
qed

lemma main_cycle_shape:
  assumes "main_cycle e st = (out, st1)"
  shows "names (conn st1) = names (conn st)
       \<and> (nothing_recorded st st1
          \<or> (\<exists>row. table_only row st (st1\<lparr>status := status st\<rparr>) \<and> quiet st st1)
          \<or> (\<exists>row p. out = Continue \<and> recorded e row p st st1))"
proof -
  obtain res st2 where t: "main_try e st = (res, st2)" by force
  from main_try_shape [OF t] have nm: "names (conn st2) = names (conn st)"
    and sh: "nothing_recorded st st2
          \<or> (\<exists>row x. res = Some x \<and> table_only row st st2)
          \<or> (\<exists>row p. res = None \<and> recorded e row p st st2)" by auto
  show ?thesis
  proof (cases res)
    case None
    with assms t have "out = Continue" "st1 = st2" by (simp_all add: main_cycle_def)
    with sh nm None show ?thesis by (auto simp: table_only_def)
  next
    case (Some x)
    with assms t have st1: "st1 = st2 \<or> st1 = st2\<lparr>status := Error x\<rparr>"
      by (auto simp: main_cycle_def split: if_splits)
    from sh Some have "nothing_recorded st st2 \<or> (\<exists>row. table_only row st st2)" by auto
    then show ?thesis
    proof
      assume "nothing_recorded st st2"
      with st1 have "nothing_recorded st st1"
        by (auto simp: nothing_recorded_def quiet_def)
      with nm st1 show ?thesis by auto
    next
      assume "\<exists>row. table_only row st st2"
      then obtain row where "table_only row st st2" ..
      with st1 have "table_only row st (st1\<lparr>status := status st\<rparr>) \<and> quiet st st1"
        by (auto simp: table_only_def quiet_def split: status.splits)
      with nm st1 show ?thesis by auto
    qed
  qed
qed

lemma digit_char_eq: "digit_char a = digit_char b \<longleftrightarrow> a mod 10 = b mod 10"
proof -
  have "(48 + a mod 10) mod 256 = 48 + a mod 10" "(48 + b mod 10) mod 256 = 48 + b mod 10"
    by simp_all
  then show ?thesis
    by (simp add: digit_char_def)
qed

lemma pad2_inj:
  assumes "pad2 a = pad2 b" "a < 100" "b < 100"
  shows "a = b"
proof -
  from assms(1) have h: "(a div 10) mod 10 = (b div 10) mod 10" "a mod 10 = b mod 10"
    by (simp_all add: pad2_def digit_char_eq)
  from assms(2,3) have "(a div 10) mod 10 = a div 10" "(b div 10) mod 10 = b div 10"
    by simp_all
  with h have "a div 10 = b div 10" by simp
  with h(2) show ?thesis
    by (metis div_mult_mod_eq)
qed

lemma div_mod_10_eq: "a div 10 = b div 10 \<Longrightarrow> a mod 10 = b mod 10 \<Longrightarrow> a = (b::nat)"
  by (metis div_mult_mod_eq)

lemma pad4_inj:
  assumes "pad4 a = pad4 b" "a < 10000" "b < 10000"
  shows "a = b"
proof -
  from assms(1) have h: "(a div 1000) mod 10 = (b div 1000) mod 10"
    "(a div 100) mod 10 = (b div 100) mod 10" "(a div 10) mod 10 = (b div 10) mod 10"
    "a mod 10 = b mod 10"
    by (simp_all add: pad4_def digit_char_eq)
  from assms(2,3) have "(a div 1000) mod 10 = a div 1000" "(b div 1000) mod 10 = b div 1000"
    by simp_all
  with h(1) have e3: "a div 1000 = b div 1000" by simp
  have "a div 100 div 10 = a div 1000" "b div 100 div 10 = b div 1000"
    by (simp_all add: div_mult2_eq [symmetric])
  with e3 have "a div 100 div 10 = b div 100 div 10" by simp
  from div_mod_10_eq [OF this h(2)] have e2: "a div 100 = b div 100" .
  have "a div 10 div 10 = a div 100" "b div 10 div 10 = b div 100"
    by (simp_all add: div_mult2_eq [symmetric])
  with e2 have "a div 10 div 10 = b div 10 div 10" by simp
  from div_mod_10_eq [OF this h(3)] have "a div 10 = b div 10" .
  from div_mod_10_eq [OF this h(4)] show ?thesis .
qed

lemma filename_inj:
  assumes "valid_datetime d" "valid_datetime d1"
    and "strftime_m_d_Y_csv d = strftime_m_d_Y_csv d1"
  shows "same_date d d1"
proof -
  from assms(3) have "pad2 (month d) = pad2 (month d1)" "pad2 (day d) = pad2 (day d1)"
    "pad4 (year d) = pad4 (year d1)"
    by (simp_all add: strftime_m_d_Y_csv_def pad2_def pad4_def)
  moreover from assms(1,2) have "month d < 100" "month d1 < 100" "day d < 100" "day d1 < 100"
    "year d < 10000" "year d1 < 10000"
    by (simp_all add: valid_datetime_def)
  ultimately show ?thesis
    by (simp add: same_date_def pad2_inj pad4_inj)
qed

lemma same_date_path: "same_date d d1 \<Longrightarrow> daily_path base d = daily_path base d1"
  by (simp add: same_date_def daily_path_def strftime_m_Y_def strftime_m_d_Y_csv_def)

lemma daily_path_inj:
  assumes "valid_datetime d" "valid_datetime d1" "daily_path base d = daily_path base d1"
  shows "same_date d d1"
  using assms filename_inj [of d d1] by (simp add: daily_path_def)

lemma mset_grow_table:
  "A \<subseteq># B \<Longrightarrow> A \<subseteq># add_mset (r::'a) (B + P)"
  by (auto simp: subseteq_mset_def le_SucI trans_le_add1)

lemma mset_grow_both:
  "A \<subseteq># B \<Longrightarrow> add_mset (r::'a) A \<subseteq># add_mset r (B + P)"
  by (auto simp: subseteq_mset_def le_SucI trans_le_add1)

lemma csv_backed_cycle:
  assumes c: "main_cycle e st = (out, st1)" and b: "csv_backed st"
  shows "csv_backed st1"
proof -
  from main_cycle_shape [OF c]
  consider "nothing_recorded st st1"
    | row where "table_only row st (st1\<lparr>status := status st\<rparr>)"
    | row p where "recorded e row p st st1"
    by auto
  then show ?thesis
  proof cases
    case 1
    with b show ?thesis by (simp add: csv_backed_def nothing_recorded_def)
  next
    case 2
    then have "mset (scans (conn st1)) = mset (scans (conn st)) + mset (pending (conn st)) + {#row#}"
      and "data_rows (fs st1) = data_rows (fs st)"
      by (simp_all add: table_only_def committed_def)
    with b show ?thesis
      by (simp add: csv_backed_def mset_grow_table)
  next
    case 3
    then have s: "mset (scans (conn st1)) = mset (scans (conn st)) + mset (pending (conn st)) + {#row#}"
      and a: "append_daily_csv e OUTPUT_DIR row (fs st) = (Inr p, fs st1)"
      by (simp_all add: recorded_def committed_def)
    from append_ok_rows [OF a] have "mset (data_rows (fs st1)) = mset (data_rows (fs st)) + {#row#}" .
    with s b show ?thesis
      by (simp add: csv_backed_def mset_grow_both)
  qed
qed

lemma csv_backed_loop: "csv_backed st \<Longrightarrow> csv_backed (main_loop es st)"
proof (induction es arbitrary: st)
  case Nil
  then show ?case by simp
next
  case (Cons e es)
  obtain out st1 where c: "main_cycle e st = (out, st1)" by force
  from csv_backed_cycle [OF c Cons.prems] have "csv_backed st1" .
  with Cons.IH c show ?case
    by (cases out) simp_all
qed

lemma fs_changed_committed:
  assumes c: "main_cycle e st = (out, st1)" and n: "fs st1 \<noteq> fs st"
  shows "\<exists>row. committed row (conn st) (conn st1)"
  using main_cycle_shape [OF c] n
  by (auto simp: nothing_recorded_def table_only_def recorded_def)

lemma in_csv_iff: "in_csv f r \<longleftrightarrow> (\<exists>p. holds_row f p r)"
proof
  assume "in_csv f r"
  then show "\<exists>p. holds_row f p r"
    by (auto simp: in_csv_def list_ex_iff)
next
  assume "\<exists>p. holds_row f p r"
  then obtain p c where "map_of (files f) p = Some c" "holds_row f p r"
    by (auto simp: holds_row_def split: option.splits)
  then show "in_csv f r"
    by (auto simp: in_csv_def list_ex_iff dest: map_of_SomeD intro!: bexI [of _ "(p, c)"])
qed

lemma grows_holds_row: "grows f f1 \<Longrightarrow> holds_row f p r \<Longrightarrow> holds_row f1 p r"
  by (fastforce simp: grows_def holds_row_def split: option.splits)

lemma grows_in_csv: "grows f f1 \<Longrightarrow> in_csv f r \<Longrightarrow> in_csv f1 r"
  by (auto simp: in_csv_iff dest: grows_holds_row)

lemma append_ok_holds:
  assumes "append_daily_csv e base row f = (Inr p, f1)"
  shows "holds_row f1 p row"
  by (simp add: holds_row_def append_ok_file [OF assms])

lemma committed_scans:
  "committed row c c1 \<Longrightarrow> row \<in> set (scans c1) \<and> set (scans c) \<subseteq> set (scans c1)"
  by (auto simp: committed_def)

lemma history_backed_cycle:
  assumes c: "main_cycle e st = (out, st1)" and b: "history_backed st"
  shows "history_backed st1"
proof -
  from main_cycle_shape [OF c]
  consider "nothing_recorded st st1"
    | row where "table_only row st (st1\<lparr>status := status st\<rparr>)" "quiet st st1"
    | row p where "recorded e row p st st1"
    by auto
  then show ?thesis
  proof cases
    case 1
    with b show ?thesis
      by (auto simp: history_backed_def nothing_recorded_def quiet_def split: status.splits)
  next
    case 2
    then have com: "committed row (conn st) (conn st1)" and h: "history st1 = history st"
      and g: "grows (fs st) (fs st1)"
      by (simp_all add: table_only_def)
    from b h committed_scans [OF com] g
    have "list_all (\<lambda>r. r \<in> set (scans (conn st1)) \<and> in_csv (fs st1) r) (history st1)"
      by (auto simp: history_backed_def list_all_iff dest: grows_in_csv)
    moreover from b h have "length (history st1) \<le> 3"
      by (simp add: history_backed_def)
    moreover from b 2(2) committed_scans [OF com] g
    have "case status st1 of
            Scanned r p \<Rightarrow> r \<in> set (scans (conn st1)) \<and> holds_row (fs st1) p r
          | _ \<Rightarrow> True"
      by (auto simp: history_backed_def quiet_def split: status.splits dest: grows_holds_row)
    ultimately show ?thesis
      by (simp add: history_backed_def)
  next
    case 3
    then have com: "committed row (conn st) (conn st1)"
      and h: "history st1 = appendleft row (history st)"
      and s: "status st1 = Scanned row p"
      and a: "append_daily_csv e OUTPUT_DIR row (fs st) = (Inr p, fs st1)"
      by (simp_all add: recorded_def)
    note g = append_ok_grows [OF a]
    note hr = append_ok_holds [OF a]
    from hr have ic: "in_csv (fs st1) row" by (auto simp: in_csv_iff)
    have "set (history st1) \<subseteq> insert row (set (history st))"
      unfolding h appendleft_def by (auto dest: in_set_takeD)
    with b committed_scans [OF com] g ic
    have "list_all (\<lambda>r. r \<in> set (scans (conn st1)) \<and> in_csv (fs st1) r) (history st1)"
      by (auto simp: history_backed_def list_all_iff dest: grows_in_csv)
    moreover have "length (history st1) \<le> 3"
      by (simp add: h appendleft_def)
    ultimately show ?thesis
      using s hr committed_scans [OF com] by (simp add: history_backed_def)
  qed
qed

lemma history_backed_loop: "history_backed st \<Longrightarrow> history_backed (main_loop es st)"
proof (induction es arbitrary: st)
  case Nil
  then show ?case by simp
next
  case (Cons e es)
  obtain out st1 where c: "main_cycle e st = (out, st1)" by force
  from history_backed_cycle [OF c Cons.prems] have "history_backed st1" .
  with Cons.IH c show ?case
    by (cases out) simp_all
qed

lemma history_step:
  assumes c: "main_cycle e st = (out, st1)"
  shows "history st1 = history st \<or> (\<exists>row p. recorded e row p st st1)"
  using main_cycle_shape [OF c]
  by (auto simp: nothing_recorded_def table_only_def)

subsection \<open>The scan loop: table before file\<close>

lemma sample_cycle_files:
  "files (fs (snd (main_cycle (sample_scan ''id: 104 !'' (at_time 28 9 6) (at_time 28 9 6) None)
                              sample_state)))
     = [(OUTPUT_DIR @ [''08_2025'', ''08_28_2025.csv''],
         [Header fieldnames, Data (sample_row ''09:06'' ''08:28:2025'')])]"
  by code_simp

text \<open>
  C3. The row of a scan is inserted and committed before its CSV append begins: a cycle
  that changes the file system at all (the month directory, the file, its header, the
  row) has committed the row. So the invariant \<^const>\<open>csv_backed\<close> is kept by every run of
  the loop, whatever call raises or is interrupted in whatever cycle: the data rows of the
  CSV files are, counted with their multiplicity, committed rows of the table.
\<close>

theorem table_before_file:
  "(csv_backed st \<longrightarrow> csv_backed (main_loop es st))
   \<and> (fs (snd (main_cycle e st)) \<noteq> fs st \<longrightarrow>
        (\<exists>row. committed row (conn st) (conn (snd (main_cycle e st)))))"
proof -
  obtain out st1 where c: "main_cycle e st = (out, st1)" by force
  from fs_changed_committed [OF c] c csv_backed_loop [of st es] show ?thesis by simp
qed

text \<open>
  A run from a fresh session: a scan whose append fails at the opening of the file, then
  a scan that succeeds.
\<close>

theorem table_before_file_witness:
  "csv_backed sample_state
   \<and> csv_backed (main_loop
        [sample_scan ''id: 104 !'' (at_time 28 9 5) (at_time 28 9 5) (Some (AtOpen, OSError)),
         sample_scan ''id: 104 !'' (at_time 28 9 6) (at_time 28 9 6) None] sample_state)
   \<and> fs (snd (main_cycle (sample_scan ''id: 104 !'' (at_time 28 9 6) (at_time 28 9 6) None)
                          sample_state)) \<noteq> fs sample_state
   \<and> (\<exists>row. committed row (conn sample_state)
          (conn (snd (main_cycle (sample_scan ''id: 104 !'' (at_time 28 9 6) (at_time 28 9 6) None)
                                 sample_state))))"
proof -
  let ?e = "sample_scan ''id: 104 !'' (at_time 28 9 6) (at_time 28 9 6) None"
  let ?es = "[sample_scan ''id: 104 !'' (at_time 28 9 5) (at_time 28 9 5) (Some (AtOpen, OSError)), ?e]"
  have b: "csv_backed sample_state"
    by (simp add: csv_backed_def sample_state_def data_rows_def)
  have "files (fs (snd (main_cycle ?e sample_state))) \<noteq> files (fs sample_state)"
    by (simp add: sample_cycle_files) (simp add: sample_state_def)
  then have n: "fs (snd (main_cycle ?e sample_state)) \<noteq> fs sample_state"
    by auto
  from table_before_file [of sample_state ?es ?e] b n show ?thesis
    by simp
qed

subsection \<open>Rejected scans\<close>

lemma strip_subset: "set (strip s) \<subseteq> set s"
proof -
  have "set (dropWhile is_space (rev (dropWhile is_space s))) \<subseteq> set (rev (dropWhile is_space s))"
    by (rule set_dropWhileD [THEN subsetI])
  also have "\<dots> \<subseteq> set s"
    by (auto dest: set_dropWhileD)
  finally show ?thesis
    by (simp add: strip_def)
qed

lemma no_digit_normalize:
  assumes "\<not> list_ex is_digit s"
  shows "normalize_scan lim (strip s) = None"
proof -
  from assms strip_subset [of s] have "filter is_digit (strip s) = []"
    by (auto simp: list_ex_iff filter_empty_conv)
  then show ?thesis
    by (simp add: normalize_scan_def)
qed

lemma invalid_cycle:
  assumes "raises e AtInput = None" "\<not> list_ex is_digit (line e)"
  shows "main_cycle e st = (Continue, st\<lparr>status := InvalidScan (strip (line e))\<rparr>)"
  using assms no_digit_normalize [OF assms(2), of "int_max_str_digits e"]
  by (simp add: main_cycle_def main_try_def read_line_def)

lemma not_found_cycle:
  assumes "raises e AtInput = None" "raises e AtFetch = None"
    and "normalize_scan (int_max_str_digits e) (strip (line e)) = Some tid"
    and "fetch_name_by_tracking_id (names (conn st)) tid = Inr None"
  shows "main_cycle e st = (Continue, st\<lparr>status := IdNotFound tid\<rparr>)"
  using assms
  by (simp add: main_cycle_def main_try_def read_line_def fetch_def)

lemma sample_no_fault: "raises (sample_scan l t1 t2 None) pt = None"
  by (simp add: raises_def sample_scan_def)

lemma sample_fields [simp]:
  "line (sample_scan l t1 t2 flt) = l"
  "int_max_str_digits (sample_scan l t1 t2 flt) = Some 4300"
  "now_insert (sample_scan l t1 t2 flt) = t1"
  "now_append (sample_scan l t1 t2 flt) = t2"
  "fault (sample_scan l t1 t2 flt) = flt"
  by (simp_all add: sample_scan_def)

lemma sample_absent:
  "normalize_scan (Some 4300) (strip ''#999'') = Some 999
   \<and> fetch_name_by_tracking_id (names (conn sample_state)) 999 = Inr None"
  by code_simp

lemma sample_no_digit: "\<not> list_ex is_digit ''abc!''"
  by code_simp



subsection \<open>The rolling history\<close>

lemma history_backed_init: "history_backed (main_init c f0)"
  by (simp add: history_backed_def main_init_def)

lemma csv_failure_cycle:
  assumes r: "read_line e = Inr raw"
    and n: "normalize_scan (int_max_str_digits e) raw = Some tid"
    and f: "fetch e (names (conn st)) tid = Inr (Some (f, l))"
    and i: "insert_scan e (conn st) tid f l = (Inr (hhmm, mdy), c1)"
    and b: "beep_success e = None"
    and a: "append_daily_csv e OUTPUT_DIR
              \<lparr>tracking_id = tid, first_name = f, last_name = l,
               time_hhmm = hhmm, date_mmddyyyy = mdy\<rparr> (fs st) = (Inl x, f1)"
  shows "history (snd (main_cycle e st)) = history st
       \<and> \<lparr>tracking_id = tid, first_name = f, last_name = l,
          time_hhmm = hhmm, date_mmddyyyy = mdy\<rparr> \<in> set (scans (conn (snd (main_cycle e st))))
       \<and> quiet st (snd (main_cycle e st))"
proof -
  let ?row = "\<lparr>tracking_id = tid, first_name = f, last_name = l,
               time_hhmm = hhmm, date_mmddyyyy = mdy\<rparr>"
  from r n f i b a have t: "main_try e st = (Some x, st\<lparr>conn := c1, fs := f1\<rparr>)"
    by (simp add: main_try_def Let_def)
  from insert_scan_ok [OF i] have "committed ?row (conn st) c1" by blast
  then have "?row \<in> set (scans c1)" by (simp add: committed_def)
  with t show ?thesis
    by (auto simp: main_cycle_def quiet_def split: status.splits)
qed

lemma sample_failed_append:
  "read_line (sample_scan ''id: 104 !'' (at_time 28 9 5) (at_time 28 9 5) (Some (AtMkdir, OSError)))
     = Inr ''id: 104 !''
   \<and> normalize_scan (Some 4300) ''id: 104 !'' = Some 104
   \<and> fetch (sample_scan ''id: 104 !'' (at_time 28 9 5) (at_time 28 9 5) (Some (AtMkdir, OSError)))
        (names (conn sample_state)) 104 = Inr (Some (''Jane'', ''Smith''))
   \<and> insert_scan (sample_scan ''id: 104 !'' (at_time 28 9 5) (at_time 28 9 5) (Some (AtMkdir, OSError)))
        (conn sample_state) 104 ''Jane'' ''Smith''
       = (Inr (''09:05'', ''08:28:2025''),
          \<lparr>names = Some sample_names, scans = [sample_row ''09:05'' ''08:28:2025''], pending = []\<rparr>)
   \<and> beep_success (sample_scan ''id: 104 !'' (at_time 28 9 5) (at_time 28 9 5) (Some (AtMkdir, OSError)))
       = None
   \<and> append_daily_csv (sample_scan ''id: 104 !'' (at_time 28 9 5) (at_time 28 9 5) (Some (AtMkdir, OSError)))
        OUTPUT_DIR (sample_row ''09:05'' ''08:28:2025'') (fs sample_state)
       = (Inl OSError, fs sample_state)"
  by code_simp

text \<open>
  C10. The invariant \<^const>\<open>history_backed\<close> is kept by every run of the loop and holds
  in every state reached from the start of a session: each entry of the history, and the
  scan of a success status, is a committed row of \<^verbatim>\<open>scans\<close> and a data row of a CSV file,
  and the history has at most 3 entries. A cycle leaves the history as it is or, when its
  insert was committed and its append returned, puts the new entry in front and keeps the
  first 3. When the insert of a cycle is committed and its append raises, the row is in
  \<^verbatim>\<open>scans\<close>, the history is unchanged and there is no new success status.
\<close>

theorem history_after_both_writes:
  "(history_backed st \<longrightarrow> history_backed (main_loop es st))
   \<and> history_backed (main_loop es (main_init c f0))
   \<and> (history (snd (main_cycle e st)) = history st
        \<or> (\<exists>row p. recorded e row p st (snd (main_cycle e st))
                  \<and> history (snd (main_cycle e st)) = take 3 (row # history st)))
   \<and> (read_line e = Inr raw \<and> normalize_scan (int_max_str_digits e) raw = Some tid
       \<and> fetch e (names (conn st)) tid = Inr (Some (f, l))
       \<and> insert_scan e (conn st) tid f l = (Inr (hhmm, mdy), c1)
       \<and> beep_success e = None
       \<and> append_daily_csv e OUTPUT_DIR
            \<lparr>tracking_id = tid, first_name = f, last_name = l,
             time_hhmm = hhmm, date_mmddyyyy = mdy\<rparr> (fs st) = (Inl x, f1)
       \<longrightarrow> history (snd (main_cycle e st)) = history st
          \<and> \<lparr>tracking_id = tid, first_name = f, last_name = l,
             time_hhmm = hhmm, date_mmddyyyy = mdy\<rparr>
              \<in> set (scans (conn (snd (main_cycle e st))))
          \<and> quiet st (snd (main_cycle e st)))"
proof (intro conjI impI)
  assume "history_backed st"
  then show "history_backed (main_loop es st)"
    by (rule history_backed_loop)
next
  show "history_backed (main_loop es (main_init c f0))"
    by (rule history_backed_loop) (rule history_backed_init)
next
  obtain out st1 where c: "main_cycle e st = (out, st1)" by force
  from history_step [OF c] c
  show "history (snd (main_cycle e st)) = history st
        \<or> (\<exists>row p. recorded e row p st (snd (main_cycle e st))
                  \<and> history (snd (main_cycle e st)) = take 3 (row # history st))"
    by (auto simp: recorded_def appendleft_def)
next
  assume h: "read_line e = Inr raw \<and> normalize_scan (int_max_str_digits e) raw = Some tid
       \<and> fetch e (names (conn st)) tid = Inr (Some (f, l))
       \<and> insert_scan e (conn st) tid f l = (Inr (hhmm, mdy), c1)
       \<and> beep_success e = None
       \<and> append_daily_csv e OUTPUT_DIR
            \<lparr>tracking_id = tid, first_name = f, last_name = l,
             time_hhmm = hhmm, date_mmddyyyy = mdy\<rparr> (fs st) = (Inl x, f1)"
  then have h1: "read_line e = Inr raw"
    and h2: "normalize_scan (int_max_str_digits e) raw = Some tid"
    and h3: "fetch e (names (conn st)) tid = Inr (Some (f, l))"
    and h4: "insert_scan e (conn st) tid f l = (Inr (hhmm, mdy), c1)"
    and h5: "beep_success e = None"
    and h6: "append_daily_csv e OUTPUT_DIR
            \<lparr>tracking_id = tid, first_name = f, last_name = l,
             time_hhmm = hhmm, date_mmddyyyy = mdy\<rparr> (fs st) = (Inl x, f1)"
    by simp_all
  from csv_failure_cycle [OF h1 h2 h3 h4 h5 h6]
  show "history (snd (main_cycle e st)) = history st"
    and "\<lparr>tracking_id = tid, first_name = f, last_name = l,
          time_hhmm = hhmm, date_mmddyyyy = mdy\<rparr> \<in> set (scans (conn (snd (main_cycle e st))))"
    and "quiet st (snd (main_cycle e st))"
    by simp_all
qed

text \<open>
  In the sample session, a scan whose append fails at the creation of the month directory:
  the row is committed and the history stays empty.
\<close>

theorem history_after_both_writes_witness:
  "history_backed sample_state
   \<and> history_backed (main_loop
        [sample_scan ''id: 104 !'' (at_time 28 9 5) (at_time 28 9 5) (Some (AtMkdir, OSError)),
         sample_scan ''id: 104 !'' (at_time 28 9 6) (at_time 28 9 6) None] sample_state)
   \<and> append_daily_csv (sample_scan ''id: 104 !'' (at_time 28 9 5) (at_time 28 9 5) (Some (AtMkdir, OSError)))
        OUTPUT_DIR (sample_row ''09:05'' ''08:28:2025'') (fs sample_state)
       = (Inl OSError, fs sample_state)
   \<and> history (snd (main_cycle
        (sample_scan ''id: 104 !'' (at_time 28 9 5) (at_time 28 9 5) (Some (AtMkdir, OSError)))
        sample_state)) = history sample_state
   \<and> sample_row ''09:05'' ''08:28:2025''
       \<in> set (scans (conn (snd (main_cycle
            (sample_scan ''id: 104 !'' (at_time 28 9 5) (at_time 28 9 5) (Some (AtMkdir, OSError)))
            sample_state))))"
proof -
  let ?e = "sample_scan ''id: 104 !'' (at_time 28 9 5) (at_time 28 9 5) (Some (AtMkdir, OSError))"
  let ?es = "[?e, sample_scan ''id: 104 !'' (at_time 28 9 6) (at_time 28 9 6) None]"
  have b: "history_backed sample_state"
    by (simp add: history_backed_def sample_state_def)
  note s = sample_failed_append [unfolded sample_row_def]
  from history_after_both_writes [of sample_state ?es _ _ ?e "''id: 104 !''" 104 "''Jane''" "''Smith''"
      "''09:05''" "''08:28:2025''" _ OSError "fs sample_state"] b s
  show ?thesis
    unfolding sample_row_def by simp
qed

subsection \<open>The daily CSV files\<close>

lemma append_ok_layout:
  assumes "append_daily_csv e base row f = (Inr p, f1)"
  shows "p = base @ [strftime_m_Y (now_append e), strftime_m_d_Y_csv (now_append e)]
       \<and> base @ [strftime_m_Y (now_append e)] \<in> dirs f1"
  using append_daily_csv_ok [OF assms]
  by (simp add: daily_path_def)

text \<open>
  An append that returns has written to the file \<^verbatim>\<open><root>/<MM_YYYY>/<MM_DD_YYYY>.csv\<close> of
  the date read by the append itself, the month directory exists afterwards, the file
  holds its former lines followed by the new row, with the header before it exactly when
  there was no file, and no other file has changed. So the files are one per date of the
  clock at the time of the append, whatever date the appended row carries.
\<close>

lemma append_daily_csv_partition:
  "(append_daily_csv e base row f = (Inr p, g) \<longrightarrow>
      p = base @ [strftime_m_Y (now_append e), strftime_m_d_Y_csv (now_append e)]
      \<and> base @ [strftime_m_Y (now_append e)] \<in> dirs g
      \<and> map_of (files g) p
          = Some ((case map_of (files f) p of None \<Rightarrow> [Header fieldnames] | Some c \<Rightarrow> c)
                  @ [Data row])
      \<and> (\<forall>q. q \<noteq> p \<longrightarrow> map_of (files g) q = map_of (files f) q))
   \<and> (append_daily_csv ea base ra fa = (Inr pa, fb)
       \<and> append_daily_csv eb base rb fb = (Inr pb, fc)
       \<and> append_daily_csv ec base rc fc = (Inr pc, fd)
       \<and> valid_datetime (now_append ea) \<and> valid_datetime (now_append ec)
       \<and> same_date (now_append ea) (now_append eb)
       \<and> \<not> same_date (now_append ea) (now_append ec)
       \<and> map_of (files fa) pa = None \<and> map_of (files fa) pc = None
       \<longrightarrow> pb = pa \<and> pc \<noteq> pa
          \<and> map_of (files fd) pa = Some [Header fieldnames, Data ra, Data rb]
          \<and> map_of (files fd) pc = Some [Header fieldnames, Data rc])"
proof (intro conjI impI allI)
  assume a: "append_daily_csv e base row f = (Inr p, g)"
  from append_ok_layout [OF a]
  show "p = base @ [strftime_m_Y (now_append e), strftime_m_d_Y_csv (now_append e)]"
    and "base @ [strftime_m_Y (now_append e)] \<in> dirs g"
    by simp_all
  show "map_of (files g) p
          = Some ((case map_of (files f) p of None \<Rightarrow> [Header fieldnames] | Some c \<Rightarrow> c)
                  @ [Data row])"
    by (simp add: append_ok_file [OF a])
  fix q
  assume "q \<noteq> p"
  then show "map_of (files g) q = map_of (files f) q"
    by (simp add: append_ok_file [OF a])
next
  assume h: "append_daily_csv ea base ra fa = (Inr pa, fb)
       \<and> append_daily_csv eb base rb fb = (Inr pb, fc)
       \<and> append_daily_csv ec base rc fc = (Inr pc, fd)
       \<and> valid_datetime (now_append ea) \<and> valid_datetime (now_append ec)
       \<and> same_date (now_append ea) (now_append eb)
       \<and> \<not> same_date (now_append ea) (now_append ec)
       \<and> map_of (files fa) pa = None \<and> map_of (files fa) pc = None"
  then have a: "append_daily_csv ea base ra fa = (Inr pa, fb)"
    and b: "append_daily_csv eb base rb fb = (Inr pb, fc)"
    and c: "append_daily_csv ec base rc fc = (Inr pc, fd)"
    and va: "valid_datetime (now_append ea)" and vc: "valid_datetime (now_append ec)"
    and sd: "same_date (now_append ea) (now_append eb)"
    and nd: "\<not> same_date (now_append ea) (now_append ec)"
    and na: "map_of (files fa) pa = None" and nc: "map_of (files fa) pc = None"
    by simp_all
  have pa: "pa = daily_path base (now_append ea)"
    and pb: "pb = daily_path base (now_append eb)"
    and pc: "pc = daily_path base (now_append ec)"
    using append_daily_csv_ok [OF a] append_daily_csv_ok [OF b] append_daily_csv_ok [OF c]
    by simp_all
  from pa pb same_date_path [OF sd] have e1: "pb = pa" by simp
  have e2: "pc \<noteq> pa"
  proof
    assume "pc = pa"
    with pa pc have "daily_path base (now_append ea) = daily_path base (now_append ec)"
      by simp
    from daily_path_inj [OF va vc this] nd show False
      by simp
  qed
  have 1: "map_of (files fb) pa = Some [Header fieldnames, Data ra]"
    by (simp add: append_ok_file [OF a] na)
  have 2: "map_of (files fc) pa = Some [Header fieldnames, Data ra, Data rb]"
    using e1 by (simp add: append_ok_file [OF b] 1)
  have 3: "map_of (files fc) pc = None"
    using e1 e2 by (simp add: append_ok_file [OF b] append_ok_file [OF a] nc)
  show "pb = pa" by (rule e1)
  show "pc \<noteq> pa" by (rule e2)
  show "map_of (files fd) pa = Some [Header fieldnames, Data ra, Data rb]"
    using e2 by (simp add: append_ok_file [OF c] 2)
  show "map_of (files fd) pc = Some [Header fieldnames, Data rc]"
    by (simp add: append_ok_file [OF c] 3)
qed

text \<open>
  C5. Two scans of the line \<^verbatim>\<open>id: 104 !\<close>, from an empty table and no file. The first is
  inserted and appended at 23:58 on 28 August 2025; the insert of the second reads the
  clock at 23:59 on 28 August and its append reads it at 00:00 on 29 August. Both rows are
  recorded with the date \<^verbatim>\<open>08:28:2025\<close>, in the table and in the files, and they are in two
  files, \<^verbatim>\<open>08_28_2025.csv\<close> and \<^verbatim>\<open>08_29_2025.csv\<close>, each with its own header: two scans of
  the same date do not share one file, and the second is not in the file of its date.
\<close>

theorem same_date_scans_two_files:
  "sinks (main_loop
        [sample_scan ''id: 104 !'' (at_time 28 23 58) (at_time 28 23 58) None,
         sample_scan ''id: 104 !'' (at_time 28 23 59) (at_time 29 0 0) None]
        sample_state)
   = ([sample_row ''23:58'' ''08:28:2025'', sample_row ''23:59'' ''08:28:2025''],
      [(OUTPUT_DIR @ [''08_2025'', ''08_28_2025.csv''],
        [Header fieldnames, Data (sample_row ''23:58'' ''08:28:2025'')]),
       (OUTPUT_DIR @ [''08_2025'', ''08_29_2025.csv''],
        [Header fieldnames, Data (sample_row ''23:59'' ''08:28:2025'')])])"
  by code_simp

text \<open>
  C4. A scan of the line \<^verbatim>\<open>id: 104 !\<close> whose insert reads the clock at 23:59 on 28 August
  2025 and whose append reads it at 00:00 on 29 August: the row of the table and the row
  of the file are the same, dated \<^verbatim>\<open>08:28:2025\<close>, and the row of the file is in
  \<^verbatim>\<open>08_29_2025.csv\<close>. The name of the file comes from a second reading of the clock.
\<close>

theorem scan_across_midnight:
  "scans (conn (snd (main_cycle
       (sample_scan ''id: 104 !'' (at_time 28 23 59) (at_time 29 0 0) None) sample_state)))
     = [sample_row ''23:59'' ''08:28:2025'']
   \<and> files (fs (snd (main_cycle
       (sample_scan ''id: 104 !'' (at_time 28 23 59) (at_time 29 0 0) None) sample_state)))
     = [(OUTPUT_DIR @ [''08_2025'', ''08_29_2025.csv''],
         [Header fieldnames, Data (sample_row ''23:59'' ''08:28:2025'')])]"
  by code_simp

end
